theory Spec2Isabelle
  imports Main "HOL-Library.Sublist"
begin

section \<open>Errors, library calls and the world the client runs in\<close>

text \<open>
  The exceptions the commands of \<^verbatim>\<open>SFTPClient/Client.py\<close> raise or let through. Each
  carries its message. \<open>IOError\<close> is Python's \<open>OSError\<close>; \<open>FileNotFoundError\<close>,
  \<open>FileExistsError\<close>, \<open>PermissionError\<close>, \<open>IsADirectoryError\<close> and \<open>NotADirectoryError\<close>
  are its subclasses, so \<^verbatim>\<open>except IOError\<close> catches all of them.
\<close>

datatype error =
    TypeError string
  | ValueError string
  | StopIteration
  | IOError string
  | FileNotFoundError string
  | FileExistsError string
  | PermissionError string
  | IsADirectoryError string
  | NotADirectoryError string

fun is_IOError :: "error \<Rightarrow> bool" where
  "is_IOError (TypeError _) = False"
| "is_IOError (ValueError _) = False"
| "is_IOError StopIteration = False"
| "is_IOError _ = True"

text \<open>
  Every call the commands make on \<^verbatim>\<open>self.connection\<close> (the pysftp facade), and the two
  local calls of \<^verbatim>\<open>cp\<close> (\<^verbatim>\<open>os.mkdir\<close>, \<^verbatim>\<open>shutil.rmtree\<close>), with the arguments the
  source passes. \<open>Listdir None\<close> is \<^verbatim>\<open>listdir()\<close>; \<open>Mkdir p None\<close> is \<^verbatim>\<open>mkdir(p)\<close> with
  the library's default mode; \<open>Put l None b\<close> is \<^verbatim>\<open>put(l, preserve_mtime=b)\<close>; the
  boolean of \<open>Put\<close>, \<open>Get_r\<close> and \<open>Put_r\<close> is \<^verbatim>\<open>preserve_mtime\<close>.
\<close>

datatype call =
    Listdir "string option"
  | Chmod string int
  | Isdir string
  | Isfile string
  | Exists string
  | Walktree string
  | Remove string
  | Rmdir string
  | Mkdir string "int option"
  | Makedirs string int
  | Get string string
  | Put string "string option" bool
  | Get_r string string bool
  | Put_r string string bool
  | Os_mkdir string
  | Rmtree string

fun is_remote_write :: "call \<Rightarrow> bool" where
  "is_remote_write (Chmod _ _) = True"
| "is_remote_write (Remove _) = True"
| "is_remote_write (Rmdir _) = True"
| "is_remote_write (Mkdir _ _) = True"
| "is_remote_write (Makedirs _ _) = True"
| "is_remote_write (Put _ _ _) = True"
| "is_remote_write (Put_r _ _ _) = True"
| "is_remote_write _ = False"

text \<open>The trace: each call in the order it was made, with the error it raised if any.\<close>

datatype event = Returned call | Raised call error

fun call_of :: "event \<Rightarrow> call" where
  "call_of (Returned c) = c"
| "call_of (Raised c _) = c"

text \<open>
  The remote namespace is a tree. A directory holds its entries in the order
  \<^verbatim>\<open>listdir\<close> reports them. \<open>Special\<close> is anything that is neither a regular file nor
  a directory (what \<^verbatim>\<open>walktree\<close> hands to its \<^verbatim>\<open>ucallback\<close>).
\<close>

datatype entry = RegFile | Directory "(string \<times> entry) list" | Special

text \<open>The local namespace maps a path to a file with its content, or to a directory.\<close>

datatype lnode = LFile string | LDir

type_synonym lfs = "string \<rightharpoonup> lnode"

text \<open>
  The world a command runs in. \<open>remote_fs\<close> is the tree under the session's working
  directory, \<open>local_fs\<close> the local paths, \<open>trace\<close> the calls made so far, \<open>tempdir\<close> the
  value of \<^verbatim>\<open>tempfile.gettempdir()\<close>, \<open>userhome\<close> the home directories
  \<^verbatim>\<open>os.path.expanduser\<close> knows (the empty name is the current user). The library is
  not part of the repository: \<open>fault\<close> says which call the remote side or the operating
  system rejects in which state (a permission error, a broken transfer), and \<open>effect\<close>
  gives the state after a call this development does not interpret (\<^verbatim>\<open>chmod\<close>,
  \<^verbatim>\<open>mkdir\<close>, \<^verbatim>\<open>makedirs\<close>, \<^verbatim>\<open>get\<close>, \<^verbatim>\<open>put\<close>, \<^verbatim>\<open>get_r\<close>, \<^verbatim>\<open>put_r\<close>), also when
  it fails half way.
\<close>

record world =
  remote_fs :: entry
  local_fs :: lfs
  trace :: "event list"
  tempdir :: string
  userhome :: "string \<rightharpoonup> string"
  fault :: "call \<Rightarrow> entry \<Rightarrow> lfs \<Rightarrow> error option"
  effect :: "call \<Rightarrow> entry \<Rightarrow> lfs \<Rightarrow> entry \<times> lfs"

type_synonym 'a io = "world \<Rightarrow> (error + 'a) \<times> world"

definition io_bind :: "'a io \<Rightarrow> ('a \<Rightarrow> 'b io) \<Rightarrow> 'b io" where
  "io_bind m f w = (case m w of (Inl e, w') \<Rightarrow> (Inl e, w') | (Inr x, w') \<Rightarrow> f x w')"

definition io_return :: "'a \<Rightarrow> 'a io" where
  "io_return x w = (Inr x, w)"

definition io_raise :: "error \<Rightarrow> 'a io" where
  "io_raise e w = (Inl e, w)"

definition record_event :: "event \<Rightarrow> world \<Rightarrow> world" where
  "record_event ev w = w\<lparr>trace := trace w @ [ev]\<rparr>"

text \<open>The events a run added to the trace.\<close>

definition new_events :: "world \<Rightarrow> world \<Rightarrow> event list" where
  "new_events w w' = drop (length (trace w)) (trace w')"

section \<open>Strings and paths\<close>

definition HISTORY_FILE :: string where
  "HISTORY_FILE = ''command_history.txt''"

definition DOWNLOADS_DIRECTORY :: string where
  "DOWNLOADS_DIRECTORY = ''downloads''"

fun str_nat :: "nat \<Rightarrow> string" where
  "str_nat n = (if n < 10 then [''0123456789'' ! n]
                else str_nat (n div 10) @ [''0123456789'' ! (n mod 10)])"

declare str_nat.simps [simp del]

fun join_str :: "string \<Rightarrow> string list \<Rightarrow> string" where
  "join_str sep [] = []"
| "join_str sep [x] = x"
| "join_str sep (x # y # ys) = x @ sep @ join_str sep (y # ys)"

fun split_on :: "char \<Rightarrow> string \<Rightarrow> string list" where
  "split_on c [] = [[]]"
| "split_on c (x # xs) =
     (if x = c then [] # split_on c xs
      else (case split_on c xs of [] \<Rightarrow> [[x]] | y # ys \<Rightarrow> (x # y) # ys))"

text \<open>
  How the remote side resolves a path: its components from the working directory, empty
  components and \<^verbatim>\<open>.\<close> skipped.
\<close>

definition components :: "string \<Rightarrow> string list" where
  "components p = filter (\<lambda>s. s \<noteq> [] \<and> s \<noteq> ''.'') (split_on CHR ''/'' p)"

text \<open>\<^verbatim>\<open>posixpath.join(a, b)\<close> and \<^verbatim>\<open>posixpath.basename(p)\<close>.\<close>

definition posix_join :: "string \<Rightarrow> string \<Rightarrow> string" where
  "posix_join a b =
     (if b \<noteq> [] \<and> hd b = CHR ''/'' then b
      else if a = [] \<or> last a = CHR ''/'' then a @ b
      else a @ ''/'' @ b)"

definition basename :: "string \<Rightarrow> string" where
  "basename p = rev (takeWhile (\<lambda>c. c \<noteq> CHR ''/'') (rev p))"

section \<open>The remote tree\<close>

fun lookup :: "entry \<Rightarrow> string list \<Rightarrow> entry option" where
  "lookup e [] = Some e"
| "lookup (Directory kids) (n # ns) =
     (case map_of kids n of None \<Rightarrow> None | Some e \<Rightarrow> lookup e ns)"
| "lookup RegFile (n # ns) = None"
| "lookup Special (n # ns) = None"

fun delete_at :: "string list \<Rightarrow> entry \<Rightarrow> entry" where
  "delete_at [] e = e"
| "delete_at [n] (Directory kids) = Directory (filter (\<lambda>(m, e). m \<noteq> n) kids)"
| "delete_at (n # n' # ns) (Directory kids) =
     Directory (map (\<lambda>(m, e). if m = n then (m, delete_at (n' # ns) e) else (m, e)) kids)"
| "delete_at (n # ns) RegFile = RegFile"
| "delete_at (n # ns) Special = Special"

text \<open>
  pysftp's \<^verbatim>\<open>walktree(remotepath, fcallback, dcallback, ucallback)\<close>: for each entry of
  the listing, in order, a directory is reported to \<^verbatim>\<open>dcallback\<close> and then walked, a
  regular file goes to \<^verbatim>\<open>fcallback\<close>, anything else to \<^verbatim>\<open>ucallback\<close>. The walk is
  taken over the tree as it is when the walk starts: the callbacks \<^verbatim>\<open>rmdir\<close> passes
  remove only entries that the walk has already passed.
\<close>

datatype visit = FVisit string | DVisit string | UVisit string

function walktree :: "string \<Rightarrow> (string \<times> entry) list \<Rightarrow> visit list" where
  "walktree remotepath [] = []"
| "walktree remotepath ((name, e) # rest) =
     (let pathname = posix_join remotepath name in
      (case e of
         Directory kids \<Rightarrow> DVisit pathname # walktree pathname kids
       | RegFile \<Rightarrow> [FVisit pathname]
       | Special \<Rightarrow> [UVisit pathname])
      @ walktree remotepath rest)"
  by pat_completeness auto
termination
  by (relation "measure (\<lambda>(p, es). size_list (size_prod (\<lambda>n. 0) size) es)") auto

section \<open>The facade and the local calls\<close>

text \<open>
  What \<^verbatim>\<open>isdir\<close>, \<^verbatim>\<open>isfile\<close> and \<^verbatim>\<open>exists\<close> answer on a tree. pysftp turns a failed
  \<^verbatim>\<open>stat\<close> into \<^verbatim>\<open>False\<close>, so the three never raise.
\<close>

definition is_dir_at :: "entry \<Rightarrow> string \<Rightarrow> bool" where
  "is_dir_at r p = (case lookup r (components p) of Some (Directory _) \<Rightarrow> True | _ \<Rightarrow> False)"

definition is_file_at :: "entry \<Rightarrow> string \<Rightarrow> bool" where
  "is_file_at r p = (case lookup r (components p) of Some RegFile \<Rightarrow> True | _ \<Rightarrow> False)"

definition exists_at :: "entry \<Rightarrow> string \<Rightarrow> bool" where
  "exists_at r p = (case lookup r (components p) of Some _ \<Rightarrow> True | None \<Rightarrow> False)"

definition conn_isdir :: "string \<Rightarrow> bool io" where
  "conn_isdir p w = (Inr (is_dir_at (remote_fs w) p), record_event (Returned (Isdir p)) w)"

definition conn_isfile :: "string \<Rightarrow> bool io" where
  "conn_isfile p w = (Inr (is_file_at (remote_fs w) p), record_event (Returned (Isfile p)) w)"

definition conn_exists :: "string \<Rightarrow> bool io" where
  "conn_exists p w = (Inr (exists_at (remote_fs w) p), record_event (Returned (Exists p)) w)"

text \<open>
  A call whose effect is interpreted here: rejected by \<open>fault\<close>, or else run by \<open>sem\<close>
  on the two namespaces.
\<close>

definition perform :: "call \<Rightarrow> (entry \<Rightarrow> lfs \<Rightarrow> error + 'a \<times> entry \<times> lfs) \<Rightarrow> 'a io" where
  "perform c sem w =
     (case fault w c (remote_fs w) (local_fs w) of
        Some e \<Rightarrow> (Inl e, record_event (Raised c e) w)
      | None \<Rightarrow>
          (case sem (remote_fs w) (local_fs w) of
             Inl e \<Rightarrow> (Inl e, record_event (Raised c e) w)
           | Inr (x, r, l) \<Rightarrow>
               (Inr x, record_event (Returned c) (w\<lparr>remote_fs := r, local_fs := l\<rparr>))))"

text \<open>A call whose effect is the library's: \<open>effect\<close> gives the state, \<open>fault\<close> the error.\<close>

definition library :: "call \<Rightarrow> unit io" where
  "library c w =
     (let (r, l) = effect w c (remote_fs w) (local_fs w);
          w1 = w\<lparr>remote_fs := r, local_fs := l\<rparr>
      in case fault w c (remote_fs w) (local_fs w) of
           Some e \<Rightarrow> (Inl e, record_event (Raised c e) w1)
         | None \<Rightarrow> (Inr (), record_event (Returned c) w1))"

definition conn_listdir :: "string option \<Rightarrow> string list io" where
  "conn_listdir p =
     perform (Listdir p) (\<lambda>r l.
       (case lookup r (components (case p of None \<Rightarrow> ''.'' | Some q \<Rightarrow> q)) of
          Some (Directory kids) \<Rightarrow> Inr (map fst kids, r, l)
        | Some _ \<Rightarrow> Inl (IOError ''Failure'')
        | None \<Rightarrow> Inl (FileNotFoundError ''No such file'')))"

definition conn_remove :: "string \<Rightarrow> unit io" where
  "conn_remove p =
     perform (Remove p) (\<lambda>r l.
       (case lookup r (components p) of
          None \<Rightarrow> Inl (FileNotFoundError ''No such file'')
        | Some (Directory kids) \<Rightarrow> Inl (IOError ''Failure'')
        | Some _ \<Rightarrow>
            (if components p = [] then Inl (IOError ''Failure'')
             else Inr ((), delete_at (components p) r, l))))"

definition conn_rmdir :: "string \<Rightarrow> unit io" where
  "conn_rmdir p =
     perform (Rmdir p) (\<lambda>r l.
       (case lookup r (components p) of
          None \<Rightarrow> Inl (FileNotFoundError ''No such file'')
        | Some (Directory []) \<Rightarrow>
            (if components p = [] then Inl (IOError ''Failure'')
             else Inr ((), delete_at (components p) r, l))
        | Some _ \<Rightarrow> Inl (IOError ''Failure'')))"

text \<open>
  \<^verbatim>\<open>connection.walktree(p, fcallback, dcallback, ucallback)\<close> as \<^verbatim>\<open>rmdir\<close> calls it:
  the visits of the walk, or the error the walk itself raises.
\<close>

definition conn_walktree :: "string \<Rightarrow> visit list io" where
  "conn_walktree p =
     perform (Walktree p) (\<lambda>r l.
       (case lookup r (components p) of
          Some (Directory kids) \<Rightarrow> Inr (walktree p kids, r, l)
        | Some _ \<Rightarrow> Inl (IOError ''Failure'')
        | None \<Rightarrow> Inl (FileNotFoundError ''No such file'')))"

section \<open>The history decorator\<close>

text \<open>\<^verbatim>\<open>with open(path, "a") as f: f.write(text)\<close>.\<close>

definition append_file :: "string \<Rightarrow> string \<Rightarrow> unit io" where
  "append_file path text w =
     (case local_fs w path of
        None \<Rightarrow> (Inr (), w\<lparr>local_fs := (local_fs w)(path \<mapsto> LFile text)\<rparr>)
      | Some (LFile c) \<Rightarrow> (Inr (), w\<lparr>local_fs := (local_fs w)(path \<mapsto> LFile (c @ text))\<rparr>)
      | Some LDir \<Rightarrow> (Inl (IsADirectoryError path), w))"

text \<open>The line \<^verbatim>\<open>log_history\<close> writes for the function called \<open>name\<close>.\<close>

definition history_line :: "string \<Rightarrow> string list \<Rightarrow> string" where
  "history_line name args =
     (if length args > 0 then name @ '' '' @ join_str '' '' args @ [CHR 0x0A]
      else name @ [CHR 0x0A])"

definition log_history :: "string \<Rightarrow> (string list \<Rightarrow> 'a io) \<Rightarrow> string list \<Rightarrow> 'a io" where
  "log_history name func args =
     io_bind (append_file HISTORY_FILE (history_line name args)) (\<lambda>_. func args)"

section \<open>Recursive removal\<close>

text \<open>
  The walk of \<^verbatim>\<open>rmdir\<close>: \<^verbatim>\<open>fcallback\<close> and \<^verbatim>\<open>ucallback\<close> are \<^verbatim>\<open>connection.remove\<close>,
  \<^verbatim>\<open>dcallback\<close> is \<^verbatim>\<open>dirs.append\<close>. The result is \<^verbatim>\<open>dirs\<close>.
\<close>

fun run_callbacks :: "visit list \<Rightarrow> string list \<Rightarrow> string list io" where
  "run_callbacks [] dirs = io_return dirs"
| "run_callbacks (FVisit p # vs) dirs = io_bind (conn_remove p) (\<lambda>_. run_callbacks vs dirs)"
| "run_callbacks (UVisit p # vs) dirs = io_bind (conn_remove p) (\<lambda>_. run_callbacks vs dirs)"
| "run_callbacks (DVisit p # vs) dirs = run_callbacks vs (dirs @ [p])"

text \<open>\<^verbatim>\<open>for dir in reversed(dirs): self.connection.rmdir(dir)\<close>, given the reversed list.\<close>

fun rmdir_each :: "string list \<Rightarrow> unit io" where
  "rmdir_each [] = io_return ()"
| "rmdir_each (d # ds) = io_bind (conn_rmdir d) (\<lambda>_. rmdir_each ds)"

definition rmdir_body :: "string list \<Rightarrow> unit io" where
  "rmdir_body args =
     (if length args \<noteq> 1 then
        io_raise (TypeError (''rmdir() takes exactly one argument ('' @ str_nat (length args)
                             @ '' given)''))
      else
        io_bind (conn_isdir (args ! 0)) (\<lambda>isdir.
          if isdir then
            io_bind (conn_walktree (args ! 0)) (\<lambda>visits.
            io_bind (run_callbacks visits []) (\<lambda>dirs.
            io_bind (rmdir_each (rev dirs)) (\<lambda>_.
            conn_rmdir (args ! 0))))
          else
            io_raise (TypeError (''Error: '' @ [CHR 0x27] @ args ! 0 @ [CHR 0x27]
                                 @ '' is not a directory''))))"

definition rmdir :: "string list \<Rightarrow> unit io" where
  "rmdir = log_history ''rmdir'' rmdir_body"

section \<open>Listing, permissions, single files and directories\<close>

definition ls_body :: "string list \<Rightarrow> string list io" where
  "ls_body args =
     (if length args = 0 then conn_listdir None
      else if length args = 1 then conn_listdir (Some (args ! 0))
      else io_raise (TypeError (''ls() takes exactly zero or one arguments (''
                                @ str_nat (length args) @ '' given)'')))"

definition ls :: "string list \<Rightarrow> string list io" where
  "ls = log_history ''ls'' ls_body"

text \<open>
  \<^verbatim>\<open>str.strip()\<close> and \<^verbatim>\<open>int(s)\<close> on ASCII text. \<^verbatim>\<open>strip\<close> takes off what
  \<^verbatim>\<open>str.isspace\<close> accepts, which includes the separators 0x1C to 0x1F; \<^verbatim>\<open>int\<close> skips
  only the six whitespace characters of C around an optional sign and digits with single
  underscores between them.
\<close>

definition py_isspace :: "char \<Rightarrow> bool" where
  "py_isspace c =
     (c \<in> set [CHR 0x09, CHR 0x0A, CHR 0x0B, CHR 0x0C, CHR 0x0D,
                CHR 0x1C, CHR 0x1D, CHR 0x1E, CHR 0x1F, CHR 0x20])"

definition c_isspace :: "char \<Rightarrow> bool" where
  "c_isspace c = (c \<in> set [CHR 0x09, CHR 0x0A, CHR 0x0B, CHR 0x0C, CHR 0x0D, CHR 0x20])"

definition strip :: "string \<Rightarrow> string" where
  "strip s = rev (dropWhile py_isspace (rev (dropWhile py_isspace s)))"

definition is_digit :: "char \<Rightarrow> bool" where
  "is_digit c = (c \<in> set ''0123456789'')"

definition digit_val :: "char \<Rightarrow> nat" where
  "digit_val c = of_char c - 48"

fun valid_digits :: "string \<Rightarrow> bool" where
  "valid_digits [] = False"
| "valid_digits [c] = is_digit c"
| "valid_digits (c # d # r) =
     (is_digit c \<and> (if d = CHR ''_'' then valid_digits r else valid_digits (d # r)))"

definition py_int :: "string \<Rightarrow> int option" where
  "py_int s =
     (let t = rev (dropWhile c_isspace (rev (dropWhile c_isspace s)));
          neg = (t \<noteq> [] \<and> hd t = CHR ''-'');
          body = (if t \<noteq> [] \<and> (hd t = CHR ''-'' \<or> hd t = CHR ''+'') then tl t else t)
      in if valid_digits body then
           Some ((if neg then - 1 else 1)
                 * int (foldl (\<lambda>a c. 10 * a + digit_val c) 0 (filter (\<lambda>c. c \<noteq> CHR ''_'') body)))
         else None)"

definition chmod_body :: "string list \<Rightarrow> unit io" where
  "chmod_body args =
     (if length args = 2 then
        (case py_int (args ! 1) of
           None \<Rightarrow> io_raise (ValueError (''invalid literal for int() with base 10: ''
                                          @ [CHR 0x27] @ args ! 1 @ [CHR 0x27]))
         | Some mode \<Rightarrow> library (Chmod (args ! 0) mode))
      else io_raise (TypeError (''chmod() takes exactly two arguments (''
                                @ str_nat (length args) @ '' given)'')))"

definition chmod :: "string list \<Rightarrow> unit io" where
  "chmod = log_history ''chmod'' chmod_body"

definition rm_usage :: string where
  "rm_usage = ''Usage: rm [filename | path/to/filename]''"

definition rm_body :: "string list \<Rightarrow> unit io" where
  "rm_body args =
     (if length args \<noteq> 1 then io_raise (TypeError rm_usage)
      else io_bind (conn_isfile (args ! 0)) (\<lambda>isfile.
             if isfile then conn_remove (args ! 0)
             else io_raise (TypeError rm_usage)))"

definition rm :: "string list \<Rightarrow> unit io" where
  "rm = log_history ''rm'' rm_body"

definition mkdir_usage :: string where
  "mkdir_usage = ''Usage: mkdir [dirname | path/to/dirname]''"

text \<open>The literal \<^verbatim>\<open>775\<close> that \<^verbatim>\<open>mkdir\<close> passes as \<^verbatim>\<open>mode\<close>.\<close>

definition mkdir_mode :: int where
  "mkdir_mode = 775"

definition mkdir_body :: "string list \<Rightarrow> unit io" where
  "mkdir_body args =
     (if length args \<noteq> 1 then io_raise (TypeError mkdir_usage)
      else if CHR ''/'' \<in> set (args ! 0) then library (Makedirs (args ! 0) mkdir_mode)
      else library (Mkdir (args ! 0) (Some mkdir_mode)))"

definition mkdir :: "string list \<Rightarrow> unit io" where
  "mkdir = log_history ''mkdir'' mkdir_body"

section \<open>Download and upload of single files\<close>

text \<open>\<^verbatim>\<open>s.find(c, i)\<close>, with \<open>None\<close> for \<^verbatim>\<open>-1\<close>.\<close>

definition find_from :: "char \<Rightarrow> nat \<Rightarrow> string \<Rightarrow> nat option" where
  "find_from c i s =
     (if c \<in> set (drop i s) then Some (i + length (takeWhile (\<lambda>x. x \<noteq> c) (drop i s)))
      else None)"

definition rstrip_chars :: "string \<Rightarrow> string \<Rightarrow> string" where
  "rstrip_chars cs s = rev (dropWhile (\<lambda>c. c \<in> set cs) (rev s))"

text \<open>\<^verbatim>\<open>ntpath.splitdrive\<close>, \<^verbatim>\<open>ntpath.split\<close> and \<^verbatim>\<open>ntpath.basename\<close>.\<close>

definition ntpath_splitdrive :: "string \<Rightarrow> string \<times> string" where
  "ntpath_splitdrive p =
     (if length p \<ge> 2 then
        (let normp = map (\<lambda>c. if c = CHR ''/'' then CHR 0x5C else c) p in
         if take 2 normp = [CHR 0x5C, CHR 0x5C] \<and> take 1 (drop 2 normp) \<noteq> [CHR 0x5C] then
           (case find_from (CHR 0x5C) 2 normp of
              None \<Rightarrow> ([], p)
            | Some index \<Rightarrow>
                (case find_from (CHR 0x5C) (index + 1) normp of
                   None \<Rightarrow> (p, [])
                 | Some index2 \<Rightarrow>
                     if index2 = index + 1 then ([], p) else (take index2 p, drop index2 p)))
         else if take 1 (drop 1 normp) = '':'' then (take 2 p, drop 2 p)
         else ([], p))
      else ([], p))"

definition ntpath_split :: "string \<Rightarrow> string \<times> string" where
  "ntpath_split p =
     (let seps = [CHR 0x5C, CHR ''/''];
          (d, q) = ntpath_splitdrive p;
          tail = rev (takeWhile (\<lambda>c. c \<notin> set seps) (rev q));
          head = take (length q - length tail) q;
          head' = (if rstrip_chars seps head = [] then head else rstrip_chars seps head)
      in (d @ head', tail))"

definition ntpath_basename :: "string \<Rightarrow> string" where
  "ntpath_basename p = snd (ntpath_split p)"

text \<open>\<^verbatim>\<open>os.path.expanduser\<close> (posixpath), with the home directories of the world.\<close>

definition expanduser :: "world \<Rightarrow> string \<Rightarrow> string" where
  "expanduser w path =
     (if path = [] \<or> hd path \<noteq> CHR ''~'' then path
      else
        (let i = (case find_from CHR ''/'' 1 path of None \<Rightarrow> length path | Some j \<Rightarrow> j) in
         case userhome w (take (i - 1) (drop 1 path)) of
           None \<Rightarrow> path
         | Some home \<Rightarrow>
             (let r = rstrip_chars ''/'' home @ drop i path in if r = [] then ''/'' else r)))"

definition local_isfile :: "world \<Rightarrow> string \<Rightarrow> bool" where
  "local_isfile w p = (case local_fs w p of Some (LFile _) \<Rightarrow> True | _ \<Rightarrow> False)"

definition local_isdir :: "world \<Rightarrow> string \<Rightarrow> bool" where
  "local_isdir w p = (case local_fs w p of Some LDir \<Rightarrow> True | _ \<Rightarrow> False)"

definition get_body :: "string list \<Rightarrow> unit io" where
  "get_body args w =
     (if length args < 1 \<or> length args > 2 then
        io_raise (TypeError (''get() takes 1 or 2 arguments ('' @ str_nat (length args)
                             @ '' given)'')) w
      else
        io_bind (conn_isfile (args ! 0)) (\<lambda>isfile.
          if isfile then
            (if length args = 1 then
               (let (head, tail) = ntpath_split (args ! 0);
                    remote_file = (if tail \<noteq> [] then tail else ntpath_basename head);
                    localpath = posix_join DOWNLOADS_DIRECTORY remote_file
                in library (Get (args ! 0) localpath))
             else library (Get (args ! 0) (expanduser w (args ! 1))))
          else
            io_raise (IOError (''The remote path '' @ [CHR 0x27] @ args ! 0 @ [CHR 0x27]
                               @ '' is not a file''))) w)"

definition get :: "string list \<Rightarrow> unit io" where
  "get = log_history ''get'' get_body"

text \<open>\<^verbatim>\<open>try: m except IOError: pass\<close>.\<close>

definition ignore_IOError :: "unit io \<Rightarrow> unit io" where
  "ignore_IOError m w =
     (case m w of
        (Inl e, w') \<Rightarrow> if is_IOError e then (Inr (), w') else (Inl e, w')
      | (Inr x, w') \<Rightarrow> (Inr x, w'))"

text \<open>The upload of one local file, into \<open>target\<close> when the \<^verbatim>\<open>-t\<close> flag has set it.\<close>

definition put_file :: "string option \<Rightarrow> string \<Rightarrow> unit io" where
  "put_file target arg =
     (case target of
        Some t \<Rightarrow>
          io_bind (ignore_IOError (library (Mkdir t None))) (\<lambda>_.
            library (Put arg (Some (t @ ''/'' @ basename arg)) True))
      | None \<Rightarrow> library (Put arg None True))"

text \<open>
  The loop of \<^verbatim>\<open>put\<close> over \<^verbatim>\<open>iter(args)\<close>: \<^verbatim>\<open>-t\<close> takes the next argument as the
  target, and \<^verbatim>\<open>next\<close> raises \<^verbatim>\<open>StopIteration\<close> when there is none.
\<close>

fun put_loop :: "string option \<Rightarrow> string list \<Rightarrow> unit io" where
  "put_loop target [] w = (Inr (), w)"
| "put_loop target (a # rest) w =
     (let arg = expanduser w a in
      if arg = ''-t'' then
        (case rest of
           [] \<Rightarrow> (Inl StopIteration, w)
         | t # rest' \<Rightarrow> put_loop (Some t) rest' w)
      else if local_isfile w arg then
        (case put_file target arg w of
           (Inl e, w') \<Rightarrow> (Inl e, w')
         | (Inr _, w') \<Rightarrow> put_loop target rest w')
      else if local_isdir w arg then (Inl (IOError ''Cannot put directories''), w)
      else (Inl (FileNotFoundError (''couldn'' @ [CHR 0x27] @ ''t find the requested file'')), w))"

definition put_body :: "string list \<Rightarrow> unit io" where
  "put_body args = put_loop None args"

definition put :: "string list \<Rightarrow> unit io" where
  "put = log_history ''put'' put_body"

section \<open>Remote copy through a local staging directory\<close>

definition os_mkdir :: "string \<Rightarrow> unit io" where
  "os_mkdir p =
     perform (Os_mkdir p) (\<lambda>r l.
       (case l p of
          Some _ \<Rightarrow> Inl (FileExistsError p)
        | None \<Rightarrow> Inr ((), r, l(p \<mapsto> LDir))))"

text \<open>A local path lies under the directory \<open>p\<close>.\<close>

definition under :: "string \<Rightarrow> string \<Rightarrow> bool" where
  "under p q =
     (let d = (if p \<noteq> [] \<and> last p = CHR ''/'' then p else p @ ''/'')
      in take (length d) q = d)"

definition shutil_rmtree :: "string \<Rightarrow> unit io" where
  "shutil_rmtree p =
     perform (Rmtree p) (\<lambda>r l.
       (case l p of
          None \<Rightarrow> Inl (FileNotFoundError p)
        | Some (LFile _) \<Rightarrow> Inl (NotADirectoryError p)
        | Some LDir \<Rightarrow> Inr ((), r, (\<lambda>q. if q = p \<or> under p q then None else l q))))"

text \<open>The staging directory of \<^verbatim>\<open>cp\<close>: \<^verbatim>\<open>tempfile.gettempdir() + '/' + basename(args[0])\<close>.\<close>

definition staging_dir :: "world \<Rightarrow> string \<Rightarrow> string" where
  "staging_dir w source = tempdir w @ ''/'' @ basename source"

text \<open>\<^verbatim>\<open>cp\<close> carries no \<^verbatim>\<open>@log_history\<close>.\<close>

definition cp :: "string list \<Rightarrow> unit io" where
  "cp args w =
     (if length args = 2 then
        io_bind (conn_exists (args ! 1)) (\<lambda>ex.
          if \<not> ex then
            (let tmp_d = staging_dir w (args ! 0) in
             io_bind (os_mkdir tmp_d) (\<lambda>_.
             io_bind (library (Get_r (args ! 0) tmp_d True)) (\<lambda>_.
             io_bind (library (Put_r (tmp_d @ ''/'' @ basename (args ! 0)) (args ! 1) True)) (\<lambda>_.
             shutil_rmtree tmp_d))))
          else io_raise (IOError (''mkdir: '' @ args ! 1 @ '': File exists''))) w
      else
        io_raise (TypeError (''cp() takes exactly two arguments ('' @ str_nat (length args)
                             @ '' given)'')) w)"

section \<open>The history query\<close>

definition history :: "string list \<Rightarrow> string io" where
  "history args w =
     (if length args \<noteq> 0 then
        io_raise (TypeError (''history takes exactly zero arguments ('' @ str_nat (length args)
                             @ '' given)'')) w
      else
        (case local_fs w HISTORY_FILE of
           Some (LFile c) \<Rightarrow> (Inr (strip c), w)
         | _ \<Rightarrow> (Inr [], w)))"

section \<open>Notions the statements use\<close>

text \<open>
  \<^verbatim>\<open>open(HISTORY_FILE, "a")\<close> succeeds: the path is absent or a regular file. The
  constructor removes the file at session start and only \<^verbatim>\<open>log_history\<close> writes it.
\<close>

definition history_writable :: "world \<Rightarrow> bool" where
  "history_writable w = (local_fs w HISTORY_FILE \<noteq> Some LDir)"

definition history_content :: "world \<Rightarrow> string" where
  "history_content w = (case local_fs w HISTORY_FILE of Some (LFile c) \<Rightarrow> c | _ \<Rightarrow> [])"

text \<open>The world once \<^verbatim>\<open>log_history\<close> has written its line.\<close>

definition logged :: "string \<Rightarrow> string list \<Rightarrow> world \<Rightarrow> world" where
  "logged name args w =
     w\<lparr>local_fs := (local_fs w)(HISTORY_FILE \<mapsto> LFile (history_content w @ history_line name args))\<rparr>"

fun is_os_mkdir :: "call \<Rightarrow> bool" where
  "is_os_mkdir (Os_mkdir _) = True"
| "is_os_mkdir _ = False"

fun is_get_r :: "call \<Rightarrow> bool" where
  "is_get_r (Get_r _ _ _) = True"
| "is_get_r _ = False"

fun is_put_r :: "call \<Rightarrow> bool" where
  "is_put_r (Put_r _ _ _) = True"
| "is_put_r _ = False"

text \<open>
  Of a walk: the paths handed to \<^verbatim>\<open>connection.remove\<close>, and the paths handed to
  \<^verbatim>\<open>dirs.append\<close>, each in the order of the walk.
\<close>

fun visit_removes :: "visit list \<Rightarrow> string list" where
  "visit_removes [] = []"
| "visit_removes (FVisit p # vs) = p # visit_removes vs"
| "visit_removes (UVisit p # vs) = p # visit_removes vs"
| "visit_removes (DVisit p # vs) = visit_removes vs"

fun visit_dirs :: "visit list \<Rightarrow> string list" where
  "visit_dirs [] = []"
| "visit_dirs (DVisit p # vs) = p # visit_dirs vs"
| "visit_dirs (FVisit p # vs) = visit_dirs vs"
| "visit_dirs (UVisit p # vs) = visit_dirs vs"

text \<open>Every directory below a listing, with the path the walk gives it and its own listing.\<close>

function subdirs :: "string \<Rightarrow> (string \<times> entry) list \<Rightarrow> (string \<times> (string \<times> entry) list) list" where
  "subdirs remotepath [] = []"
| "subdirs remotepath ((name, e) # rest) =
     (case e of
        Directory kids \<Rightarrow>
          (posix_join remotepath name, kids) # subdirs (posix_join remotepath name) kids
      | RegFile \<Rightarrow> []
      | Special \<Rightarrow> [])
     @ subdirs remotepath rest"
  by pat_completeness auto
termination
  by (relation "measure (\<lambda>(p, es). size_list (size_prod (\<lambda>n. 0) size) es)") auto

text \<open>
  The calls of a complete \<^verbatim>\<open>rmdir\<close> on the directory \<open>p\<close> with listing \<open>kids\<close>, in
  order: the check, the walk with its removals, the recorded directories in reverse,
  the root.
\<close>

definition rmdir_calls :: "string \<Rightarrow> (string \<times> entry) list \<Rightarrow> call list" where
  "rmdir_calls p kids =
     [Isdir p, Walktree p]
     @ map Remove (visit_removes (walktree p kids))
     @ map Rmdir (rev (visit_dirs (walktree p kids)))
     @ [Rmdir p]"

text \<open>
  A run of \<open>m\<close> from \<open>w\<close> follows the plan \<open>cs\<close>: the calls it makes are an initial
  segment of \<open>cs\<close>, it leaves the local namespace alone, and when it returns a value it
  has made all of \<open>cs\<close> without an error and \<open>Q\<close> holds of the value and the final world.
\<close>

definition traced :: "'a io \<Rightarrow> world \<Rightarrow> call list \<Rightarrow> ('a \<Rightarrow> world \<Rightarrow> bool) \<Rightarrow> bool" where
  "traced m w cs Q =
     (\<exists>evs. trace (snd (m w)) = trace w @ evs
           \<and> prefix (map call_of evs) cs
           \<and> local_fs (snd (m w)) = local_fs w
           \<and> (\<forall>x. fst (m w) = Inr x \<longrightarrow> evs = map Returned cs \<and> Q x (snd (m w))))"

text \<open>Every entry below a listing that is not a directory, with the path the walk gives it.\<close>

function subfiles :: "string \<Rightarrow> (string \<times> entry) list \<Rightarrow> string list" where
  "subfiles remotepath [] = []"
| "subfiles remotepath ((name, e) # rest) =
     (case e of
        Directory kids \<Rightarrow> subfiles (posix_join remotepath name) kids
      | RegFile \<Rightarrow> [posix_join remotepath name]
      | Special \<Rightarrow> [posix_join remotepath name])
     @ subfiles remotepath rest"
  by pat_completeness auto
termination
  by (relation "measure (\<lambda>(p, es). size_list (size_prod (\<lambda>n. 0) size) es)") auto

text \<open>
  A listing as a directory can hold it: every name is non-empty, has no slash and is not
  \<^verbatim>\<open>.\<close>, no name occurs twice, and the same holds in every directory below.
\<close>

definition good_name :: "string \<Rightarrow> bool" where
  "good_name n = (n \<noteq> [] \<and> CHR ''/'' \<notin> set n \<and> n \<noteq> ''.'')"

function (sequential) wf_listing :: "(string \<times> entry) list \<Rightarrow> bool" where
  "wf_listing [] = True"
| "wf_listing ((name, Directory kids) # rest) =
     (good_name name \<and> name \<notin> fst ` set rest \<and> wf_listing kids \<and> wf_listing rest)"
| "wf_listing ((name, RegFile) # rest) =
     (good_name name \<and> name \<notin> fst ` set rest \<and> wf_listing rest)"
| "wf_listing ((name, Special) # rest) =
     (good_name name \<and> name \<notin> fst ` set rest \<and> wf_listing rest)"
  by pat_completeness auto
termination
  by (relation "measure (size_list (size_prod (\<lambda>n. 0) size))") auto

text \<open>The remote side rejects none of the calls \<^verbatim>\<open>rmdir\<close> makes to walk and remove.\<close>

fun is_removal :: "call \<Rightarrow> bool" where
  "is_removal (Walktree _) = True"
| "is_removal (Remove _) = True"
| "is_removal (Rmdir _) = True"
| "is_removal _ = False"

definition accepts_removals :: "world \<Rightarrow> bool" where
  "accepts_removals w = (\<forall>c r l. is_removal c \<longrightarrow> fault w c r l = None)"

text \<open>
  What \<^verbatim>\<open>remove\<close> and \<^verbatim>\<open>rmdir\<close> of the facade do to a tree, given the components of
  the path: \<open>None\<close> when the call would fail. \<open>run_all\<close> makes one such call after the
  other.
\<close>

definition remove_at :: "string list \<Rightarrow> entry \<Rightarrow> entry option" where
  "remove_at rel t =
     (case lookup t rel of
        None \<Rightarrow> None
      | Some (Directory ks) \<Rightarrow> None
      | Some _ \<Rightarrow> if rel = [] then None else Some (delete_at rel t))"

definition rmdir_at :: "string list \<Rightarrow> entry \<Rightarrow> entry option" where
  "rmdir_at rel t =
     (case lookup t rel of
        Some (Directory []) \<Rightarrow> if rel = [] then None else Some (delete_at rel t)
      | _ \<Rightarrow> None)"

fun run_all :: "(string list \<Rightarrow> entry \<Rightarrow> entry option) \<Rightarrow> string list list \<Rightarrow> entry \<Rightarrow> entry option" where
  "run_all step [] t = Some t"
| "run_all step (rel # rels) t =
     (case step rel t of None \<Rightarrow> None | Some t' \<Rightarrow> run_all step rels t')"

text \<open>
  Below a listing, by components: the entries that are not directories and the
  directories, each in the order of the walk; and the listing with only its directories
  left.
\<close>

function (sequential) cfiles :: "(string \<times> entry) list \<Rightarrow> string list list" where
  "cfiles [] = []"
| "cfiles ((name, Directory kids) # rest) = map ((#) name) (cfiles kids) @ cfiles rest"
| "cfiles ((name, RegFile) # rest) = [name] # cfiles rest"
| "cfiles ((name, Special) # rest) = [name] # cfiles rest"
  by pat_completeness auto
termination
  by (relation "measure (size_list (size_prod (\<lambda>n. 0) size))") auto

function (sequential) cdirs :: "(string \<times> entry) list \<Rightarrow> string list list" where
  "cdirs [] = []"
| "cdirs ((name, Directory kids) # rest) = [name] # map ((#) name) (cdirs kids) @ cdirs rest"
| "cdirs ((name, RegFile) # rest) = cdirs rest"
| "cdirs ((name, Special) # rest) = cdirs rest"
  by pat_completeness auto
termination
  by (relation "measure (size_list (size_prod (\<lambda>n. 0) size))") auto

function (sequential) prune :: "(string \<times> entry) list \<Rightarrow> (string \<times> entry) list" where
  "prune [] = []"
| "prune ((name, Directory kids) # rest) = (name, Directory (prune kids)) # prune rest"
| "prune ((name, RegFile) # rest) = prune rest"
| "prune ((name, Special) # rest) = prune rest"
  by pat_completeness auto
termination
  by (relation "measure (size_list (size_prod (\<lambda>n. 0) size))") auto

fun dir_cons :: "string \<times> entry \<Rightarrow> entry \<Rightarrow> entry" where
  "dir_cons x (Directory ks) = Directory (x # ks)"
| "dir_cons x t = t"

text \<open>
  A session on the tree \<^verbatim>\<open>root/{a.txt, sub/{b.txt}}\<close> with nothing rejected, and the
  same session with a download that breaks, and with an upload that breaks.
\<close>

definition example_world :: world where
  "example_world =
     \<lparr>remote_fs = Directory [(''root'', Directory [(''a.txt'', RegFile),
                                                  (''sub'', Directory [(''b.txt'', RegFile)])])],
      local_fs = Map.empty,
      trace = [],
      tempdir = ''/tmp'',
      userhome = Map.empty,
      fault = (\<lambda>c r l. None),
      effect = (\<lambda>c r l. (r, l))\<rparr>"



text \<open>
  A session on a tree with several directories,
  \<^verbatim>\<open>root/{a.txt, sub/{b.txt, deep/{c.txt}}, top/}\<close> beside a file \<^verbatim>\<open>keep.txt\<close>.
\<close>

definition nested_world :: world where
  "nested_world =
     example_world\<lparr>remote_fs :=
       Directory [(''keep.txt'', RegFile),
                  (''root'', Directory [(''a.txt'', RegFile),
                                        (''sub'', Directory [(''b.txt'', RegFile),
                                                             (''deep'', Directory [(''c.txt'', Special)])]),
                                        (''top'', Directory [])])]\<rparr>"

section \<open>Facts about single steps\<close>

lemma new_events_app: "trace w' = trace w @ evs \<Longrightarrow> new_events w w' = evs"
  by (simp add: new_events_def)

lemma new_events_same [simp]: "new_events w (w\<lparr>local_fs := l\<rparr>) = []"
  by (simp add: new_events_def)

lemma log_history_run:
  "history_writable w \<Longrightarrow> log_history name func args w = func args (logged name args w)"
  by (auto simp: log_history_def io_bind_def append_file_def history_writable_def logged_def
      history_content_def split: option.splits lnode.splits)

lemma logged_fields [simp]:
  "trace (logged name args w) = trace w"
  "remote_fs (logged name args w) = remote_fs w"
  "tempdir (logged name args w) = tempdir w"
  "fault (logged name args w) = fault w"
  "effect (logged name args w) = effect w"
  "userhome (logged name args w) = userhome w"
  by (simp_all add: logged_def)

lemma new_events_logged [simp]: "new_events w (logged name args w) = []"
  by (simp add: new_events_def)

lemma new_events_from_logged [simp]: "new_events (logged name args w) w' = new_events w w'"
  by (simp add: new_events_def)

section \<open>Remote copy\<close>

lemma cp_cases:
  assumes "length args = 2" and "\<not> exists_at (remote_fs w) (args ! 1)"
  defines "src \<equiv> args ! 0" and "dst \<equiv> args ! 1"
  defines "tmp \<equiv> staging_dir w (args ! 0)"
  defines "r \<equiv> fst (cp args w)" and "evs \<equiv> new_events w (snd (cp args w))"
  shows "(\<exists>e. r = Inl e \<and> evs = [Returned (Exists dst), Raised (Os_mkdir tmp) e])
       \<or> (\<exists>e. r = Inl e \<and> evs = [Returned (Exists dst), Returned (Os_mkdir tmp),
                                   Raised (Get_r src tmp True) e])
       \<or> (\<exists>e. r = Inl e \<and> evs = [Returned (Exists dst), Returned (Os_mkdir tmp),
                                   Returned (Get_r src tmp True),
                                   Raised (Put_r (tmp @ ''/'' @ basename src) dst True) e])
       \<or> (\<exists>e. r = Inl e \<and> evs = [Returned (Exists dst), Returned (Os_mkdir tmp),
                                   Returned (Get_r src tmp True),
                                   Returned (Put_r (tmp @ ''/'' @ basename src) dst True),
                                   Raised (Rmtree tmp) e])
       \<or> (r = Inr () \<and> evs = [Returned (Exists dst), Returned (Os_mkdir tmp),
                                   Returned (Get_r src tmp True),
                                   Returned (Put_r (tmp @ ''/'' @ basename src) dst True),
                                   Returned (Rmtree tmp)]
            \<and> local_fs (snd (cp args w)) tmp = None)"
  using assms(1,2) unfolding r_def evs_def src_def dst_def tmp_def
  by (auto simp: cp_def io_bind_def io_raise_def conn_exists_def os_mkdir_def library_def
      shutil_rmtree_def perform_def record_event_def new_events_def Let_def
      split: option.splits sum.splits prod.splits lnode.splits)

lemma cp_example_run:
  "fst (cp [''root'', ''copy''] example_world) = Inr ()"
  "new_events example_world (snd (cp [''root'', ''copy''] example_world)) =
     [Returned (Exists ''copy''), Returned (Os_mkdir ''/tmp/root''),
      Returned (Get_r ''root'' ''/tmp/root'' True),
      Returned (Put_r ''/tmp/root/root'' ''copy'' True),
      Returned (Rmtree ''/tmp/root'')]"
  "local_fs (snd (cp [''root'', ''copy''] example_world)) ''/tmp/root'' = None"
  by (simp_all add: cp_def io_bind_def io_raise_def conn_exists_def os_mkdir_def library_def
      shutil_rmtree_def perform_def record_event_def new_events_def Let_def example_world_def
      exists_at_def components_def staging_dir_def basename_def)



text \<open>
  C3. When \<^verbatim>\<open>cp\<close> is called with two arguments and the destination exists on the remote
  side, it fails with the \<^verbatim>\<open>IOError\<close> \<^verbatim>\<open>mkdir: <destination>: File exists\<close>. The only
  call it has made is the existence check: no remote write, no download, no upload, no
  staging directory; both namespaces are as they were.
\<close>

theorem cp_existing_destination:
  assumes "length args = 2" and "exists_at (remote_fs w) (args ! 1)"
  shows "fst (cp args w) = Inl (IOError (''mkdir: '' @ args ! 1 @ '': File exists''))
       \<and> new_events w (snd (cp args w)) = [Returned (Exists (args ! 1))]
       \<and> filter (\<lambda>ev. is_remote_write (call_of ev) \<or> is_get_r (call_of ev)
                        \<or> is_os_mkdir (call_of ev)) (new_events w (snd (cp args w))) = []
       \<and> remote_fs (snd (cp args w)) = remote_fs w
       \<and> local_fs (snd (cp args w)) = local_fs w"
  using assms
  by (simp add: cp_def io_bind_def io_raise_def conn_exists_def record_event_def new_events_def)

theorem cp_existing_destination_witness:
  "length [''root'', ''root''] = 2
   \<and> exists_at (remote_fs example_world) ([''root'', ''root''] ! 1)
   \<and> fst (cp [''root'', ''root''] example_world) = Inl (IOError ''mkdir: root: File exists'')
   \<and> new_events example_world (snd (cp [''root'', ''root''] example_world))
       = [Returned (Exists ''root'')]
   \<and> filter (\<lambda>ev. is_remote_write (call_of ev) \<or> is_get_r (call_of ev)
                    \<or> is_os_mkdir (call_of ev))
         (new_events example_world (snd (cp [''root'', ''root''] example_world))) = []
   \<and> remote_fs (snd (cp [''root'', ''root''] example_world)) = remote_fs example_world
   \<and> local_fs (snd (cp [''root'', ''root''] example_world)) = local_fs example_world"
  using cp_existing_destination [of "[''root'', ''root'']" example_world]
  by (simp add: example_world_def exists_at_def components_def)

text \<open>
  C8. When \<^verbatim>\<open>cp\<close> gets past its checks (two arguments, destination absent), the staging
  directory is the temporary-directory root, a slash and the basename of the source. Its
  creation is the first call after the existence check; a download is only ever the
  third call, made after \<^verbatim>\<open>os.mkdir\<close> has returned; when \<^verbatim>\<open>os.mkdir\<close> raises, \<^verbatim>\<open>cp\<close>
  raises that error and makes no further call; \<^verbatim>\<open>os.mkdir\<close> is called exactly once.
\<close>

theorem cp_staging_directory:
  assumes "length args = 2" and "\<not> exists_at (remote_fs w) (args ! 1)"
  shows "(let tmp = tempdir w @ ''/'' @ basename (args ! 0);
              evs = new_events w (snd (cp args w))
          in map call_of (take 2 evs) = [Exists (args ! 1), Os_mkdir tmp]
           \<and> (\<forall>i < length evs. is_get_r (call_of (evs ! i)) \<longrightarrow>
                 i = 2 \<and> evs ! 1 = Returned (Os_mkdir tmp))
           \<and> (\<forall>e. evs ! 1 = Raised (Os_mkdir tmp) e \<longrightarrow>
                 fst (cp args w) = Inl e \<and> length evs = 2)
           \<and> length (filter (\<lambda>ev. is_os_mkdir (call_of ev)) evs) = 1)"
  using cp_cases [OF assms]
  by (elim disjE exE conjE; simp add: staging_dir_def Let_def nth_Cons' less_Suc_eq)

theorem cp_staging_directory_witness:
  "length [''root'', ''copy''] = 2
   \<and> \<not> exists_at (remote_fs example_world) ([''root'', ''copy''] ! 1)
   \<and> (let tmp = ''/tmp/root'';
           evs = new_events example_world (snd (cp [''root'', ''copy''] example_world))
       in map call_of (take 2 evs) = [Exists ''copy'', Os_mkdir tmp]
        \<and> is_get_r (call_of (evs ! 2)) \<and> evs ! 1 = Returned (Os_mkdir tmp)
        \<and> length (filter (\<lambda>ev. is_os_mkdir (call_of ev)) evs) = 1)"
proof -
  have absent: "\<not> exists_at (remote_fs example_world) ([''root'', ''copy''] ! 1)"
    by (simp add: example_world_def exists_at_def components_def)
  have tmp: "tempdir example_world = ''/tmp''"
    by (simp add: example_world_def)
  show ?thesis
    using cp_staging_directory [of "[''root'', ''copy'']" example_world] absent tmp
    by (simp add: cp_example_run Let_def basename_def)
qed

text \<open>
  C9. When \<^verbatim>\<open>cp\<close> gets past its checks, an upload is only ever the fourth call, and the
  call right before it is the download, returned without error: the download has
  completed before the upload begins. Download and upload are both called with
  \<^verbatim>\<open>preserve_mtime=True\<close>, the download from the source into the staging directory, the
  upload from the staged copy to the destination. A run that succeeds is the existence
  check, \<^verbatim>\<open>os.mkdir\<close>, \<^verbatim>\<open>get_r\<close>, \<^verbatim>\<open>put_r\<close>, \<^verbatim>\<open>rmtree\<close>, in this order.
\<close>

theorem cp_download_before_upload:
  assumes "length args = 2" and "\<not> exists_at (remote_fs w) (args ! 1)"
  shows "(let tmp = tempdir w @ ''/'' @ basename (args ! 0);
              evs = new_events w (snd (cp args w))
          in (\<forall>i < length evs. is_put_r (call_of (evs ! i)) \<longrightarrow>
                 i = 3 \<and> evs ! 2 = Returned (Get_r (args ! 0) tmp True)
                 \<and> call_of (evs ! 3) = Put_r (tmp @ ''/'' @ basename (args ! 0)) (args ! 1) True)
           \<and> (\<forall>i < length evs. is_get_r (call_of (evs ! i)) \<longrightarrow>
                 call_of (evs ! i) = Get_r (args ! 0) tmp True)
           \<and> (fst (cp args w) = Inr () \<longrightarrow>
                 map call_of evs = [Exists (args ! 1), Os_mkdir tmp, Get_r (args ! 0) tmp True,
                                    Put_r (tmp @ ''/'' @ basename (args ! 0)) (args ! 1) True,
                                    Rmtree tmp]))"
  using cp_cases [OF assms]
  by (elim disjE exE conjE; simp add: staging_dir_def Let_def nth_Cons' less_Suc_eq)

theorem cp_download_before_upload_witness:
  "length [''root'', ''copy''] = 2
   \<and> \<not> exists_at (remote_fs example_world) ([''root'', ''copy''] ! 1)
   \<and> fst (cp [''root'', ''copy''] example_world) = Inr ()
   \<and> (let evs = new_events example_world (snd (cp [''root'', ''copy''] example_world))
       in is_put_r (call_of (evs ! 3)) \<and> is_get_r (call_of (evs ! 2))
        \<and> evs ! 2 = Returned (Get_r ''root'' ''/tmp/root'' True)
        \<and> call_of (evs ! 3) = Put_r ''/tmp/root/root'' ''copy'' True
        \<and> map call_of evs = [Exists ''copy'', Os_mkdir ''/tmp/root'',
                              Get_r ''root'' ''/tmp/root'' True,
                              Put_r ''/tmp/root/root'' ''copy'' True, Rmtree ''/tmp/root''])"
proof -
  have absent: "\<not> exists_at (remote_fs example_world) ([''root'', ''copy''] ! 1)"
    by (simp add: example_world_def exists_at_def components_def)
  have tmp: "tempdir example_world = ''/tmp''"
    by (simp add: example_world_def)
  show ?thesis
    using cp_download_before_upload [of "[''root'', ''copy'']" example_world] absent tmp
    by (simp add: cp_example_run Let_def basename_def)
qed




section \<open>Argument counts\<close>

lemma ls_arity:
  "history_writable w \<Longrightarrow> length args \<noteq> 0 \<Longrightarrow> length args \<noteq> 1 \<Longrightarrow>
   fst (ls args w) = Inl (TypeError (''ls() takes exactly zero or one arguments (''
                                    @ str_nat (length args) @ '' given)''))
   \<and> new_events w (snd (ls args w)) = []"
  by (simp add: ls_def log_history_run ls_body_def io_raise_def)

lemma chmod_arity:
  "history_writable w \<Longrightarrow> length args \<noteq> 2 \<Longrightarrow>
   fst (chmod args w) = Inl (TypeError (''chmod() takes exactly two arguments (''
                                       @ str_nat (length args) @ '' given)''))
   \<and> new_events w (snd (chmod args w)) = []"
  by (simp add: chmod_def log_history_run chmod_body_def io_raise_def)

lemma rmdir_arity:
  "history_writable w \<Longrightarrow> length args \<noteq> 1 \<Longrightarrow>
   fst (rmdir args w) = Inl (TypeError (''rmdir() takes exactly one argument (''
                                       @ str_nat (length args) @ '' given)''))
   \<and> new_events w (snd (rmdir args w)) = []"
  by (simp add: rmdir_def log_history_run rmdir_body_def io_raise_def)

lemma rm_arity:
  "history_writable w \<Longrightarrow> length args \<noteq> 1 \<Longrightarrow>
   fst (rm args w) = Inl (TypeError ''Usage: rm [filename | path/to/filename]'')
   \<and> new_events w (snd (rm args w)) = []"
  by (simp add: rm_def log_history_run rm_body_def io_raise_def rm_usage_def)

lemma mkdir_arity:
  "history_writable w \<Longrightarrow> length args \<noteq> 1 \<Longrightarrow>
   fst (mkdir args w) = Inl (TypeError ''Usage: mkdir [dirname | path/to/dirname]'')
   \<and> new_events w (snd (mkdir args w)) = []"
  by (simp add: mkdir_def log_history_run mkdir_body_def io_raise_def mkdir_usage_def)

lemma get_arity:
  "history_writable w \<Longrightarrow> length args < 1 \<or> length args > 2 \<Longrightarrow>
   fst (get args w) = Inl (TypeError (''get() takes 1 or 2 arguments (''
                                     @ str_nat (length args) @ '' given)''))
   \<and> new_events w (snd (get args w)) = []"
  by (auto simp add: get_def log_history_run get_body_def io_raise_def)

lemma cp_arity:
  "length args \<noteq> 2 \<Longrightarrow>
   fst (cp args w) = Inl (TypeError (''cp() takes exactly two arguments (''
                                    @ str_nat (length args) @ '' given)''))
   \<and> new_events w (snd (cp args w)) = []"
  by (simp add: cp_def io_raise_def new_events_def)

lemma history_arity:
  "length args \<noteq> 0 \<Longrightarrow>
   fst (history args w) = Inl (TypeError (''history takes exactly zero arguments (''
                                         @ str_nat (length args) @ '' given)''))
   \<and> new_events w (snd (history args w)) = []"
  by (simp add: history_def io_raise_def new_events_def)

lemma put_no_arguments:
  "history_writable w \<Longrightarrow> fst (put [] w) = Inr () \<and> new_events w (snd (put [] w)) = []"
  by (simp add: put_def log_history_run put_body_def)

text \<open>
  C6, as stated, fails for \<^verbatim>\<open>put\<close>: it has no check of the argument count. With no
  argument at all, its loop runs zero times and it returns without error.
\<close>

theorem put_without_arguments_counterexample:
  "length ([] :: string list) < 1
   \<and> fst (put [] example_world) = Inr ()
   \<and> new_events example_world (snd (put [] example_world)) = []"
proof -
  have "history_writable example_world"
    by (simp add: history_writable_def example_world_def)
  then show ?thesis
    using put_no_arguments by simp
qed

text \<open>
  C6, amended. While the history file can be written: an argument list whose length is
  outside the accepted counts of \<^verbatim>\<open>ls\<close> (0 or 1), \<^verbatim>\<open>chmod\<close> (2), \<^verbatim>\<open>rmdir\<close> (1), \<^verbatim>\<open>rm\<close>
  (1), \<^verbatim>\<open>mkdir\<close> (1), \<^verbatim>\<open>get\<close> (1 or 2), \<^verbatim>\<open>cp\<close> (2) or \<^verbatim>\<open>history\<close> (0) makes the
  command raise a \<^verbatim>\<open>TypeError\<close> before any call on the facade or the local file system.
  The message gives the expected and the given count, except for \<^verbatim>\<open>rm\<close> and \<^verbatim>\<open>mkdir\<close>,
  whose message is their usage line. \<^verbatim>\<open>put\<close> accepts every count: with no argument it
  returns without error and without any call.
\<close>

theorem arity_errors:
  assumes "history_writable w"
  shows "(length args \<noteq> 0 \<and> length args \<noteq> 1 \<longrightarrow>
            fst (ls args w) = Inl (TypeError (''ls() takes exactly zero or one arguments (''
                                             @ str_nat (length args) @ '' given)''))
            \<and> new_events w (snd (ls args w)) = [])
       \<and> (length args \<noteq> 2 \<longrightarrow>
            fst (chmod args w) = Inl (TypeError (''chmod() takes exactly two arguments (''
                                                @ str_nat (length args) @ '' given)''))
            \<and> new_events w (snd (chmod args w)) = [])
       \<and> (length args \<noteq> 1 \<longrightarrow>
            fst (rmdir args w) = Inl (TypeError (''rmdir() takes exactly one argument (''
                                                @ str_nat (length args) @ '' given)''))
            \<and> new_events w (snd (rmdir args w)) = [])
       \<and> (length args \<noteq> 1 \<longrightarrow>
            fst (rm args w) = Inl (TypeError ''Usage: rm [filename | path/to/filename]'')
            \<and> new_events w (snd (rm args w)) = [])
       \<and> (length args \<noteq> 1 \<longrightarrow>
            fst (mkdir args w) = Inl (TypeError ''Usage: mkdir [dirname | path/to/dirname]'')
            \<and> new_events w (snd (mkdir args w)) = [])
       \<and> (length args < 1 \<or> length args > 2 \<longrightarrow>
            fst (get args w) = Inl (TypeError (''get() takes 1 or 2 arguments (''
                                              @ str_nat (length args) @ '' given)''))
            \<and> new_events w (snd (get args w)) = [])
       \<and> (length args \<noteq> 2 \<longrightarrow>
            fst (cp args w) = Inl (TypeError (''cp() takes exactly two arguments (''
                                             @ str_nat (length args) @ '' given)''))
            \<and> new_events w (snd (cp args w)) = [])
       \<and> (length args \<noteq> 0 \<longrightarrow>
            fst (history args w) = Inl (TypeError (''history takes exactly zero arguments (''
                                                  @ str_nat (length args) @ '' given)''))
            \<and> new_events w (snd (history args w)) = [])
       \<and> fst (put [] w) = Inr () \<and> new_events w (snd (put [] w)) = []"
  using ls_arity [OF assms, of args] chmod_arity [OF assms, of args]
        rmdir_arity [OF assms, of args] rm_arity [OF assms, of args]
        mkdir_arity [OF assms, of args] get_arity [OF assms, of args]
        cp_arity [of args w] history_arity [of args w] put_no_arguments [OF assms]
  by blast

lemma str_nat_3: "str_nat (Suc (Suc (Suc 0))) = ''3''"
  by (simp add: str_nat.simps)

theorem arity_errors_witness:
  "history_writable example_world
   \<and> fst (ls [''a'', ''b'', ''c''] example_world)
       = Inl (TypeError ''ls() takes exactly zero or one arguments (3 given)'')
   \<and> fst (chmod [''a'', ''b'', ''c''] example_world)
       = Inl (TypeError ''chmod() takes exactly two arguments (3 given)'')
   \<and> fst (rmdir [''a'', ''b'', ''c''] example_world)
       = Inl (TypeError ''rmdir() takes exactly one argument (3 given)'')
   \<and> fst (rm [''a'', ''b'', ''c''] example_world)
       = Inl (TypeError ''Usage: rm [filename | path/to/filename]'')
   \<and> fst (mkdir [''a'', ''b'', ''c''] example_world)
       = Inl (TypeError ''Usage: mkdir [dirname | path/to/dirname]'')
   \<and> fst (get [''a'', ''b'', ''c''] example_world)
       = Inl (TypeError ''get() takes 1 or 2 arguments (3 given)'')
   \<and> fst (cp [''a'', ''b'', ''c''] example_world)
       = Inl (TypeError ''cp() takes exactly two arguments (3 given)'')
   \<and> fst (history [''a'', ''b'', ''c''] example_world)
       = Inl (TypeError ''history takes exactly zero arguments (3 given)'')
   \<and> new_events example_world (snd (rmdir [''a'', ''b'', ''c''] example_world)) = []
   \<and> fst (put [] example_world) = Inr ()"
proof -
  have writable: "history_writable example_world"
    by (simp add: history_writable_def example_world_def)
  show ?thesis
    using arity_errors [OF writable, of "[''a'', ''b'', ''c'']"] writable
    by (simp add: str_nat_3)
qed

section \<open>Paths of the wrong kind\<close>

lemma get_not_a_file:
  "history_writable w \<Longrightarrow> \<not> is_file_at (remote_fs w) (args ! 0) \<Longrightarrow>
   length args = 1 \<or> length args = 2 \<Longrightarrow>
   fst (get args w) = Inl (IOError (''The remote path '' @ [CHR 0x27] @ args ! 0 @ [CHR 0x27]
                                    @ '' is not a file''))
   \<and> new_events w (snd (get args w)) = [Returned (Isfile (args ! 0))]"
  by (auto simp add: get_def log_history_run get_body_def io_raise_def io_bind_def
      conn_isfile_def record_event_def new_events_def)

lemma rm_not_a_file:
  "history_writable w \<Longrightarrow> \<not> is_file_at (remote_fs w) p \<Longrightarrow>
   fst (rm [p] w) = Inl (TypeError rm_usage)
   \<and> new_events w (snd (rm [p] w)) = [Returned (Isfile p)]"
  by (auto simp add: rm_def log_history_run rm_body_def io_raise_def io_bind_def
      conn_isfile_def record_event_def new_events_def)

lemma rm_wrong_count:
  "history_writable w \<Longrightarrow> length args \<noteq> 1 \<Longrightarrow> fst (rm args w) = Inl (TypeError rm_usage)"
  by (simp add: rm_def log_history_run rm_body_def io_raise_def)

lemma get_wrong_count:
  "history_writable w \<Longrightarrow> length args < 1 \<or> length args > 2 \<Longrightarrow>
   \<exists>m. fst (get args w) = Inl (TypeError m)"
  by (auto simp add: get_def log_history_run get_body_def io_raise_def)

text \<open>
  C7, as stated, fails for \<^verbatim>\<open>rm\<close>: on a path that is not a file (here the directory
  \<^verbatim>\<open>root\<close>) it raises the very \<^verbatim>\<open>TypeError\<close>, with the same usage line, that it raises
  for a wrong number of arguments.
\<close>

theorem rm_same_error_counterexample:
  "\<not> is_file_at (remote_fs example_world) ''root''
   \<and> length [''root''] = 1 \<and> length ([] :: string list) \<noteq> 1
   \<and> fst (rm [''root''] example_world) = Inl (TypeError ''Usage: rm [filename | path/to/filename]'')
   \<and> fst (rm [] example_world) = Inl (TypeError ''Usage: rm [filename | path/to/filename]'')
   \<and> fst (rm [''root''] example_world) = fst (rm [] example_world)"
proof -
  have writable: "history_writable example_world"
    by (simp add: history_writable_def example_world_def)
  have nofile: "\<not> is_file_at (remote_fs example_world) ''root''"
    by (simp add: is_file_at_def example_world_def components_def)
  show ?thesis
    using rm_not_a_file [OF writable nofile] rm_wrong_count [OF writable, of "[]"] nofile
    by (simp add: rm_usage_def)
qed

text \<open>
  C7, amended. While the history file can be written and the named remote path is not a
  regular file: \<^verbatim>\<open>get\<close>, with one or two arguments, raises the \<^verbatim>\<open>IOError\<close>
  \<^verbatim>\<open>The remote path '<path>' is not a file\<close>, which differs from the \<^verbatim>\<open>TypeError\<close> it
  raises for every wrong number of arguments; \<^verbatim>\<open>rm\<close> raises \<^verbatim>\<open>TypeError\<close> with its usage
  line, the same error as for every wrong number of arguments.
\<close>

theorem kind_errors:
  assumes "history_writable w" and "\<not> is_file_at (remote_fs w) p"
  shows "fst (get [p] w) = Inl (IOError (''The remote path '' @ [CHR 0x27] @ p @ [CHR 0x27]
                                         @ '' is not a file''))
       \<and> fst (get [p, q] w) = Inl (IOError (''The remote path '' @ [CHR 0x27] @ p @ [CHR 0x27]
                                            @ '' is not a file''))
       \<and> (\<forall>args. length args < 1 \<or> length args > 2 \<longrightarrow>
             (\<exists>m. fst (get args w) = Inl (TypeError m)) \<and> fst (get args w) \<noteq> fst (get [p] w))
       \<and> fst (rm [p] w) = Inl (TypeError rm_usage)
       \<and> (\<forall>args. length args \<noteq> 1 \<longrightarrow> fst (rm args w) = fst (rm [p] w))"
proof -
  have g1: "fst (get [p] w) = Inl (IOError (''The remote path '' @ [CHR 0x27] @ p @ [CHR 0x27]
                                         @ '' is not a file''))"
    using get_not_a_file [of w "[p]"] assms by simp
  have g2: "fst (get [p, q] w) = Inl (IOError (''The remote path '' @ [CHR 0x27] @ p @ [CHR 0x27]
                                         @ '' is not a file''))"
    using get_not_a_file [of w "[p, q]"] assms by simp
  have g3: "(\<exists>m. fst (get args w) = Inl (TypeError m)) \<and> fst (get args w) \<noteq> fst (get [p] w)"
    if "length args < 1 \<or> length args > 2" for args
    using get_wrong_count [OF assms(1) that] g1 by auto
  have r1: "fst (rm [p] w) = Inl (TypeError rm_usage)"
    using rm_not_a_file [OF assms] by simp
  have r2: "fst (rm args w) = fst (rm [p] w)" if "length args \<noteq> 1" for args
    using rm_wrong_count [OF assms(1) that] r1 by simp
  show ?thesis
    using g1 g2 g3 r1 r2 by blast
qed

theorem kind_errors_witness:
  "history_writable example_world
   \<and> \<not> is_file_at (remote_fs example_world) ''root''
   \<and> fst (get [''root''] example_world) = Inl (IOError ''The remote path 'root' is not a file'')
   \<and> length ([] :: string list) < 1
   \<and> fst (get [] example_world) \<noteq> fst (get [''root''] example_world)
   \<and> fst (rm [''root''] example_world) = Inl (TypeError rm_usage)
   \<and> length ([] :: string list) \<noteq> 1
   \<and> fst (rm [] example_world) = fst (rm [''root''] example_world)"
proof -
  have writable: "history_writable example_world"
    by (simp add: history_writable_def example_world_def)
  have nofile: "\<not> is_file_at (remote_fs example_world) ''root''"
    by (simp add: is_file_at_def example_world_def components_def)
  note k = kind_errors [OF writable nofile, of "''x''"]
  from k have g: "fst (get args example_world) \<noteq> fst (get [''root''] example_world)"
    if "length args < 1 \<or> length args > 2" for args
    using that by blast
  from k have r: "fst (rm args example_world) = fst (rm [''root''] example_world)"
    if "length args \<noteq> 1" for args
    using that by blast
  show ?thesis
    using k g [of "[]"] r [of "[]"] writable nofile
    by simp
qed

section \<open>Creating directories\<close>

lemma mkdir_run:
  "history_writable w \<Longrightarrow>
   map call_of (new_events w (snd (mkdir [p] w)))
     = [if CHR ''/'' \<in> set p then Makedirs p mkdir_mode else Mkdir p (Some mkdir_mode)]"
  by (auto simp add: mkdir_def log_history_run mkdir_body_def library_def record_event_def
      new_events_def Let_def split: prod.splits option.splits)

text \<open>
  C10. While the history file can be written, \<^verbatim>\<open>mkdir\<close> with one argument makes exactly
  one call: \<^verbatim>\<open>makedirs\<close> when the path contains a slash and \<^verbatim>\<open>mkdir\<close> when it does not,
  whatever the state of the world. Either way the mode it passes is the decimal integer
  775, which is 1407 in octal and not 775 in octal.
\<close>

theorem mkdir_mode_and_choice:
  assumes "history_writable w"
  shows "map call_of (new_events w (snd (mkdir [p] w)))
           = [if CHR ''/'' \<in> set p then Makedirs p 775 else Mkdir p (Some 775)]
       \<and> mkdir_mode = 775
       \<and> mkdir_mode = 1 * 8 ^ 3 + 4 * 8 ^ 2 + 0 * 8 + 7
       \<and> mkdir_mode \<noteq> 7 * 8 ^ 2 + 7 * 8 + 5"
  using mkdir_run [OF assms, of p] by (simp add: mkdir_mode_def)

theorem mkdir_mode_and_choice_witness:
  "history_writable example_world
   \<and> map call_of (new_events example_world (snd (mkdir [''a/b''] example_world)))
       = [Makedirs ''a/b'' 775]
   \<and> map call_of (new_events example_world (snd (mkdir [''a''] example_world)))
       = [Mkdir ''a'' (Some 775)]"
proof -
  have writable: "history_writable example_world"
    by (simp add: history_writable_def example_world_def)
  show ?thesis
    using mkdir_mode_and_choice [OF writable, of "''a/b''"]
          mkdir_mode_and_choice [OF writable, of "''a''"] writable
    by simp
qed

section \<open>The history log\<close>

lemma decorated_commands_log:
  assumes "history_writable w"
  shows "ls args w = ls_body args (logged ''ls'' args w)"
    and "chmod args w = chmod_body args (logged ''chmod'' args w)"
    and "rmdir args w = rmdir_body args (logged ''rmdir'' args w)"
    and "rm args w = rm_body args (logged ''rm'' args w)"
    and "mkdir args w = mkdir_body args (logged ''mkdir'' args w)"
    and "get args w = get_body args (logged ''get'' args w)"
    and "put args w = put_body args (logged ''put'' args w)"
  using assms
  by (simp_all add: ls_def chmod_def rmdir_def rm_def mkdir_def get_def put_def log_history_run)

lemma logged_content:
  "history_writable w \<Longrightarrow>
   history_content (logged name args w) = history_content w @ history_line name args"
  by (simp add: logged_def history_content_def)

lemma mkdir_example_history:
  "local_fs (snd (mkdir [''d''] example_world)) HISTORY_FILE = Some (LFile (''mkdir d'' @ [CHR 0x0A]))"
  by (simp add: mkdir_def log_history_def io_bind_def append_file_def mkdir_body_def library_def
      record_event_def Let_def example_world_def HISTORY_FILE_def history_line_def)

text \<open>
  C4 at \<^verbatim>\<open>cp\<close>: the seven commands under \<^verbatim>\<open>@log_history\<close> write their line before
  their body runs (\<open>decorated_commands_log\<close>), as \<^verbatim>\<open>mkdir d\<close> does here. \<^verbatim>\<open>cp\<close> is not
  decorated: after a successful \<^verbatim>\<open>cp root copy\<close>, and after a failed \<^verbatim>\<open>cp root root\<close>,
  the history file still does not exist.
\<close>

theorem cp_leaves_no_history_record:
  "fst (cp [''root'', ''copy''] example_world) = Inr ()
   \<and> local_fs example_world HISTORY_FILE = None
   \<and> fst (cp [''root'', ''root''] example_world) = Inl (IOError ''mkdir: root: File exists'')
   \<and> local_fs (snd (cp [''root'', ''root''] example_world)) HISTORY_FILE = None
   \<and> local_fs (snd (cp [''root'', ''copy''] example_world)) HISTORY_FILE = None
   \<and> local_fs (snd (mkdir [''d''] example_world)) HISTORY_FILE
       = Some (LFile (''mkdir d'' @ [CHR 0x0A]))"
proof -
  have "local_fs (snd (cp [''root'', ''copy''] example_world)) HISTORY_FILE = None"
    by (simp add: cp_def io_bind_def io_raise_def conn_exists_def os_mkdir_def library_def
      shutil_rmtree_def perform_def record_event_def Let_def example_world_def
      exists_at_def components_def staging_dir_def basename_def HISTORY_FILE_def under_def)
  moreover have "local_fs example_world HISTORY_FILE = None"
    by (simp add: example_world_def)
  moreover have "fst (cp [''root'', ''root''] example_world) = Inl (IOError ''mkdir: root: File exists'')
      \<and> local_fs (snd (cp [''root'', ''root''] example_world)) HISTORY_FILE = None"
    by (simp add: cp_def io_bind_def io_raise_def conn_exists_def record_event_def
        example_world_def exists_at_def components_def)
  ultimately show ?thesis
    by (simp add: cp_example_run mkdir_example_history)
qed

section \<open>Recursive removal: the order of the calls\<close>

lemma traced_weaken:
  "traced m w cs Q \<Longrightarrow> (\<And>x w'. Q x w' \<Longrightarrow> Q' x w') \<Longrightarrow> traced m w cs Q'"
  unfolding traced_def by blast

lemma traced_return: "Q x w \<Longrightarrow> traced (io_return x) w [] Q"
  by (simp add: traced_def io_return_def)

lemma traced_raise: "traced (io_raise e) w cs Q"
  by (simp add: traced_def io_raise_def)

lemma traced_bind:
  assumes m: "traced m w cs1 Q"
    and f: "\<And>x w1. Q x w1 \<Longrightarrow> traced (f x) w1 cs2 R"
  shows "traced (io_bind m f) w (cs1 @ cs2) R"
proof -
  from m obtain evs1 where t1: "trace (snd (m w)) = trace w @ evs1"
    and p1: "prefix (map call_of evs1) cs1"
    and l1: "local_fs (snd (m w)) = local_fs w"
    and ok1: "\<And>x. fst (m w) = Inr x \<Longrightarrow> evs1 = map Returned cs1 \<and> Q x (snd (m w))"
    unfolding traced_def by blast
  show ?thesis
  proof (cases "fst (m w)")
    case (Inl e)
    then have run: "io_bind m f w = (Inl e, snd (m w))"
      by (cases "m w") (simp add: io_bind_def)
    show ?thesis
      unfolding traced_def run using t1 p1 l1
      by (intro exI [of _ evs1]) (simp add: prefix_prefix)
  next
    case (Inr x)
    then have run: "io_bind m f w = f x (snd (m w))"
      by (cases "m w") (simp add: io_bind_def)
    from ok1 [OF Inr] have e1: "evs1 = map Returned cs1" and q: "Q x (snd (m w))"
      by simp_all
    from f [OF q] obtain evs2 where t2: "trace (snd (f x (snd (m w)))) = trace (snd (m w)) @ evs2"
      and p2: "prefix (map call_of evs2) cs2"
      and l2: "local_fs (snd (f x (snd (m w)))) = local_fs (snd (m w))"
      and ok2: "\<And>y. fst (f x (snd (m w))) = Inr y \<Longrightarrow>
                  evs2 = map Returned cs2 \<and> R y (snd (f x (snd (m w))))"
      unfolding traced_def by blast
    have c1: "map call_of evs1 = cs1"
      by (simp add: e1 comp_def)
    show ?thesis
      unfolding traced_def run using t1 t2 p2 l1 l2 ok2 e1 c1
      by (intro exI [of _ "evs1 @ evs2"]) auto
  qed
qed

lemma lookup_delete_at: "cs \<noteq> [] \<Longrightarrow> lookup (delete_at cs e) cs = None"
proof (induction cs e rule: delete_at.induct)
  case (2 n kids)
  have "map_of (filter (\<lambda>(m, e). m \<noteq> n) kids) n = None"
    by (induction kids) auto
  then show ?case by simp
next
  case (3 n n' ns kids)
  have "map_of (map (\<lambda>(m, e). if m = n then (m, delete_at (n' # ns) e) else (m, e)) kids) n
        = map_option (delete_at (n' # ns)) (map_of kids n)"
    by (induction kids) auto
  with 3 show ?case
    by (auto split: option.splits dest: map_of_SomeD)
qed simp_all

lemma traced_conn_remove: "traced (conn_remove p) w [Remove p] (\<lambda>x w'. True)"
  by (auto simp: traced_def conn_remove_def perform_def record_event_def
      split: option.splits sum.splits entry.splits list.splits)

lemma traced_conn_rmdir:
  "traced (conn_rmdir p) w [Rmdir p] (\<lambda>x w'. lookup (remote_fs w') (components p) = None)"
  by (auto simp: traced_def conn_rmdir_def perform_def record_event_def lookup_delete_at
      split: option.splits sum.splits entry.splits list.splits)

lemma traced_conn_isdir:
  "traced (conn_isdir p) w [Isdir p]
     (\<lambda>b w'. b = is_dir_at (remote_fs w) p \<and> remote_fs w' = remote_fs w)"
  by (simp add: traced_def conn_isdir_def record_event_def)

lemma traced_conn_walktree:
  "lookup (remote_fs w) (components p) = Some (Directory kids) \<Longrightarrow>
   traced (conn_walktree p) w [Walktree p] (\<lambda>vs w'. vs = walktree p kids)"
  by (auto simp: traced_def conn_walktree_def perform_def record_event_def
      split: option.splits sum.splits entry.splits list.splits)

lemma traced_run_callbacks:
  "traced (run_callbacks vs dirs) w (map Remove (visit_removes vs))
     (\<lambda>ds w'. ds = dirs @ visit_dirs vs)"
proof (induction vs dirs arbitrary: w rule: run_callbacks.induct)
  case (1 dirs)
  show ?case by (simp add: traced_return)
next
  case (2 p vs dirs)
  have "traced (io_bind (conn_remove p) (\<lambda>_. run_callbacks vs dirs)) w
          ([Remove p] @ map Remove (visit_removes vs)) (\<lambda>ds w'. ds = dirs @ visit_dirs vs)"
    by (rule traced_bind [OF traced_conn_remove]) (rule 2)
  then show ?case by simp
next
  case (3 p vs dirs)
  have "traced (io_bind (conn_remove p) (\<lambda>_. run_callbacks vs dirs)) w
          ([Remove p] @ map Remove (visit_removes vs)) (\<lambda>ds w'. ds = dirs @ visit_dirs vs)"
    by (rule traced_bind [OF traced_conn_remove]) (rule 3)
  then show ?case by simp
next
  case (4 p vs dirs)
  from 4 [of w] show ?case by simp
qed

lemma traced_rmdir_each:
  "traced (rmdir_each ds) w (map Rmdir ds) (\<lambda>x w'. True)"
proof (induction ds arbitrary: w)
  case Nil
  show ?case by (simp add: traced_return)
next
  case (Cons d ds)
  have "traced (io_bind (conn_rmdir d) (\<lambda>_. rmdir_each ds)) w ([Rmdir d] @ map Rmdir ds)
          (\<lambda>x w'. True)"
    by (rule traced_bind [OF traced_conn_rmdir]) (rule Cons)
  then show ?case by simp
qed

lemma traced_rmdir_body:
  assumes dir: "lookup (remote_fs w) (components p) = Some (Directory kids)"
  shows "traced (rmdir_body [p]) w (rmdir_calls p kids)
           (\<lambda>x w'. lookup (remote_fs w') (components p) = None)"
proof -
  let ?done = "\<lambda>(x :: unit) w'. lookup (remote_fs w') (components p) = None"
  have tail: "traced (io_bind (run_callbacks (walktree p kids) []) (\<lambda>dirs.
                      io_bind (rmdir_each (rev dirs)) (\<lambda>_. conn_rmdir p))) w1
                (map Remove (visit_removes (walktree p kids))
                 @ (map Rmdir (rev (visit_dirs (walktree p kids))) @ [Rmdir p])) ?done" for w1
  proof (rule traced_bind [OF traced_run_callbacks])
    fix dirs and w2 :: world
    assume "dirs = [] @ visit_dirs (walktree p kids)"
    then have d: "dirs = visit_dirs (walktree p kids)" by simp
    show "traced (io_bind (rmdir_each (rev dirs)) (\<lambda>_. conn_rmdir p)) w2
            (map Rmdir (rev (visit_dirs (walktree p kids))) @ [Rmdir p]) ?done"
      unfolding d by (rule traced_bind [OF traced_rmdir_each]) (rule traced_conn_rmdir)
  qed
  have walk: "traced (io_bind (conn_walktree p) (\<lambda>visits.
                      io_bind (run_callbacks visits []) (\<lambda>dirs.
                      io_bind (rmdir_each (rev dirs)) (\<lambda>_. conn_rmdir p)))) w1
                ([Walktree p] @ (map Remove (visit_removes (walktree p kids))
                 @ (map Rmdir (rev (visit_dirs (walktree p kids))) @ [Rmdir p]))) ?done"
    if "remote_fs w1 = remote_fs w" for w1
  proof (rule traced_bind [OF traced_conn_walktree])
    show "lookup (remote_fs w1) (components p) = Some (Directory kids)"
      using that dir by simp
  next
    fix visits and w2 :: world
    assume "visits = walktree p kids"
    then show "traced (io_bind (run_callbacks visits []) (\<lambda>dirs.
                      io_bind (rmdir_each (rev dirs)) (\<lambda>_. conn_rmdir p))) w2
                (map Remove (visit_removes (walktree p kids))
                 @ (map Rmdir (rev (visit_dirs (walktree p kids))) @ [Rmdir p])) ?done"
      using tail by simp
  qed
  have isdir: "is_dir_at (remote_fs w) p"
    using dir by (simp add: is_dir_at_def)
  have "traced (io_bind (conn_isdir p) (\<lambda>isdir.
          if isdir then
            io_bind (conn_walktree p) (\<lambda>visits.
            io_bind (run_callbacks visits []) (\<lambda>dirs.
            io_bind (rmdir_each (rev dirs)) (\<lambda>_.
            conn_rmdir p)))
          else
            io_raise (TypeError (''Error: '' @ [CHR 0x27] @ p @ [CHR 0x27]
                                 @ '' is not a directory'')))) w
          ([Isdir p] @ ([Walktree p] @ (map Remove (visit_removes (walktree p kids))
                 @ (map Rmdir (rev (visit_dirs (walktree p kids))) @ [Rmdir p])))) ?done"
  proof (rule traced_bind [OF traced_conn_isdir])
    fix b and w1 :: world
    assume "b = is_dir_at (remote_fs w) p \<and> remote_fs w1 = remote_fs w"
    then show "traced (if b then
            io_bind (conn_walktree p) (\<lambda>visits.
            io_bind (run_callbacks visits []) (\<lambda>dirs.
            io_bind (rmdir_each (rev dirs)) (\<lambda>_.
            conn_rmdir p)))
          else
            io_raise (TypeError (''Error: '' @ [CHR 0x27] @ p @ [CHR 0x27]
                                 @ '' is not a directory''))) w1
          ([Walktree p] @ (map Remove (visit_removes (walktree p kids))
                 @ (map Rmdir (rev (visit_dirs (walktree p kids))) @ [Rmdir p]))) ?done"
      using walk [of w1] isdir by simp
  qed
  then show ?thesis
    by (simp add: rmdir_body_def rmdir_calls_def cong: if_cong)
qed

lemma log_history_blocked:
  "\<not> history_writable w \<Longrightarrow>
   log_history name func args w = (Inl (IsADirectoryError HISTORY_FILE), w)"
  by (auto simp: log_history_def io_bind_def append_file_def history_writable_def)

lemma logged_writable: "history_writable (logged name args w)"
  by (simp add: history_writable_def logged_def)

lemma visit_removes_append: "visit_removes (xs @ ys) = visit_removes xs @ visit_removes ys"
  by (induction xs rule: visit_removes.induct) simp_all

lemma visit_dirs_append: "visit_dirs (xs @ ys) = visit_dirs xs @ visit_dirs ys"
  by (induction xs rule: visit_dirs.induct) simp_all

lemma visit_removes_walktree: "visit_removes (walktree p kids) = subfiles p kids"
  by (induction p kids rule: walktree.induct)
     (auto simp: visit_removes_append Let_def split: entry.splits)

lemma visit_dirs_walktree: "visit_dirs (walktree p kids) = map fst (subdirs p kids)"
  by (induction p kids rule: walktree.induct)
     (auto simp: visit_dirs_append Let_def split: entry.splits)

lemma walktree_subdir:
  "(d, ks) \<in> set (subdirs p kids) \<Longrightarrow>
   \<exists>pre post. walktree p kids = pre @ DVisit d # walktree d ks @ post"
proof (induction p kids rule: walktree.induct)
  case (1 remotepath)
  then show ?case by simp
next
  case (2 remotepath name e rest)
  let ?pathname = "posix_join remotepath name"
  let ?here = "(case e of
         Directory kids \<Rightarrow> DVisit ?pathname # walktree ?pathname kids
       | RegFile \<Rightarrow> [FVisit ?pathname]
       | Special \<Rightarrow> [UVisit ?pathname])"
  have w: "walktree remotepath ((name, e) # rest) = ?here @ walktree remotepath rest"
    by (simp add: Let_def)
  from "2.prems" consider
      (top) kids where "e = Directory kids" "d = ?pathname" "ks = kids"
    | (inner) kids where "e = Directory kids" "(d, ks) \<in> set (subdirs ?pathname kids)"
    | (later) "(d, ks) \<in> set (subdirs remotepath rest)"
    by (auto split: entry.splits)
  then show ?case
  proof cases
    case top
    then have "walktree remotepath ((name, e) # rest)
               = [] @ DVisit d # walktree d ks @ walktree remotepath rest"
      by (simp add: Let_def)
    then show ?thesis by blast
  next
    case inner
    from "2.IH"(1) [OF refl inner(1) inner(2)] obtain pre post
      where "walktree ?pathname kids = pre @ DVisit d # walktree d ks @ post" by blast
    then have "walktree remotepath ((name, e) # rest)
               = (DVisit ?pathname # pre) @ DVisit d # walktree d ks
                 @ (post @ walktree remotepath rest)"
      using inner(1) by (simp add: Let_def)
    then show ?thesis by blast
  next
    case later
    from "2.IH"(2) [OF refl later] obtain pre post
      where "walktree remotepath rest = pre @ DVisit d # walktree d ks @ post" by blast
    then have "walktree remotepath ((name, e) # rest)
               = (?here @ pre) @ DVisit d # walktree d ks @ post"
      using w by simp
    then show ?thesis by blast
  qed
qed

lemma rmdir_calls_descendants_first:
  assumes "(d, ks) \<in> set (subdirs p kids)"
  shows "\<exists>before after. rmdir_calls p kids = before @ Rmdir d # after
           \<and> set (map Remove (subfiles d ks)) \<union> set (map Rmdir (map fst (subdirs d ks)))
               \<subseteq> set before"
proof -
  from walktree_subdir [OF assms] obtain pre post
    where w: "walktree p kids = pre @ DVisit d # walktree d ks @ post" by blast
  let ?before = "[Isdir p, Walktree p] @ map Remove (visit_removes (walktree p kids))
                 @ map Rmdir (rev (visit_dirs post)) @ map Rmdir (rev (visit_dirs (walktree d ks)))"
  let ?after = "map Rmdir (rev (visit_dirs pre)) @ [Rmdir p]"
  have split: "rmdir_calls p kids = ?before @ Rmdir d # ?after"
    by (simp add: rmdir_calls_def w visit_dirs_append)
  have files: "set (visit_removes (walktree d ks)) \<subseteq> set (visit_removes (walktree p kids))"
    by (auto simp: w visit_removes_append)
  have "set (map Remove (subfiles d ks)) \<union> set (map Rmdir (map fst (subdirs d ks)))
          \<subseteq> set ?before"
    using files by (auto simp: visit_removes_walktree [symmetric] visit_dirs_walktree [symmetric])
  with split show ?thesis by blast
qed

lemma rmdir_run:
  assumes dir: "lookup (remote_fs w) (components p) = Some (Directory kids)"
  shows "prefix (map call_of (new_events w (snd (rmdir [p] w)))) (rmdir_calls p kids)
       \<and> (fst (rmdir [p] w) = Inr () \<longrightarrow>
            new_events w (snd (rmdir [p] w)) = map Returned (rmdir_calls p kids)
            \<and> lookup (remote_fs (snd (rmdir [p] w))) (components p) = None
            \<and> history_writable (snd (rmdir [p] w)))"
proof (cases "history_writable w")
  case False
  then show ?thesis
    by (simp add: rmdir_def log_history_blocked new_events_def)
next
  case True
  let ?w0 = "logged ''rmdir'' [p] w"
  have run: "rmdir [p] w = rmdir_body [p] ?w0"
    using True by (simp add: rmdir_def log_history_run)
  have "lookup (remote_fs ?w0) (components p) = Some (Directory kids)"
    using dir by simp
  from traced_rmdir_body [OF this] obtain evs
    where t: "trace (snd (rmdir_body [p] ?w0)) = trace ?w0 @ evs"
      and pre: "prefix (map call_of evs) (rmdir_calls p kids)"
      and loc: "local_fs (snd (rmdir_body [p] ?w0)) = local_fs ?w0"
      and ok: "\<And>x. fst (rmdir_body [p] ?w0) = Inr x \<Longrightarrow>
                 evs = map Returned (rmdir_calls p kids)
                 \<and> lookup (remote_fs (snd (rmdir_body [p] ?w0))) (components p) = None"
    unfolding traced_def by blast
  have ev: "new_events w (snd (rmdir [p] w)) = evs"
    using t by (simp add: run new_events_def)
  have wr: "history_writable (snd (rmdir [p] w))"
    using loc logged_writable [of "''rmdir''" "[p]" w] by (simp add: run history_writable_def)
  show ?thesis
    using ev pre ok wr by (simp add: run)
qed

section \<open>Recursive removal: every call succeeds\<close>

subsection \<open>Paths and their components\<close>

lemma split_on_nonempty: "split_on c xs \<noteq> []"
  by (induction xs) (auto split: list.splits)

lemma split_on_append: "split_on c (xs @ c # ys) = split_on c xs @ split_on c ys"
proof (induction xs)
  case Nil
  show ?case by simp
next
  case (Cons x xs)
  obtain y ys' where s: "split_on c xs = y # ys'"
    using split_on_nonempty [of c xs] by (cases "split_on c xs") auto
  show ?case using Cons s by simp
qed

lemma split_on_absent: "c \<notin> set n \<Longrightarrow> split_on c n = [n]"
  by (induction n) auto

lemma components_join:
  assumes "good_name n"
  shows "components (posix_join q n) = components q @ [n]"
proof -
  from assms have n: "n \<noteq> []" "CHR ''/'' \<notin> set n" "n \<noteq> ''.''"
    by (simp_all add: good_name_def)
  then have hd: "hd n \<noteq> CHR ''/''"
    by (cases n) auto
  have one: "components n = [n]"
    using n by (simp add: components_def split_on_absent)
  show ?thesis
  proof (cases "q = []")
    case True
    then show ?thesis using n hd one by (simp add: posix_join_def components_def)
  next
    case False
    show ?thesis
    proof (cases "last q = CHR ''/''")
      case True
      with False obtain q' where q: "q = q' @ [CHR ''/'']"
        by (metis append_butlast_last_id)
      have "components (q @ n) = components q @ [n]"
        using n by (simp add: q components_def split_on_append split_on_absent)
      then show ?thesis using n hd True by (simp add: posix_join_def)
    next
      case nolast: False
      have "components (q @ ''/'' @ n) = components q @ [n]"
        using n by (simp add: components_def split_on_append split_on_absent)
      then show ?thesis using n hd False nolast by (simp add: posix_join_def)
    qed
  qed
qed


subsection \<open>Removal on the tree alone\<close>

lemma run_all_append:
  "run_all step (xs @ ys) t =
     (case run_all step xs t of None \<Rightarrow> None | Some t' \<Rightarrow> run_all step ys t')"
  by (induction xs arbitrary: t) (auto split: option.splits)

lemma map_keep_others:
  "n \<notin> fst ` set rest \<Longrightarrow> map (\<lambda>(m, e). if m = n then (m, f e) else (m, e)) rest = rest"
  by (induction rest) auto

lemma filter_keep_others:
  "n \<notin> fst ` set rest \<Longrightarrow> filter (\<lambda>(m, e). m \<noteq> n) rest = rest"
  by (induction rest) auto

lemma delete_at_into:
  "rel \<noteq> [] \<Longrightarrow> n \<notin> fst ` set rest \<Longrightarrow>
   delete_at (n # rel) (Directory ((n, e) # rest)) = Directory ((n, delete_at rel e) # rest)"
  by (cases rel) (simp_all add: map_keep_others)

lemma delete_at_past:
  "m \<noteq> n \<Longrightarrow>
   delete_at (m # ms) (Directory ((n, e) # rest)) = dir_cons (n, e) (delete_at (m # ms) (Directory rest))"
  by (cases ms) simp_all

lemma delete_at_is_directory: "\<exists>ks'. delete_at rel (Directory ks) = Directory ks'"
  by (cases "(rel, Directory ks)" rule: delete_at.cases) auto

lemma remove_at_into:
  "rel \<noteq> [] \<Longrightarrow> n \<notin> fst ` set rest \<Longrightarrow>
   remove_at (n # rel) (Directory ((n, e) # rest))
     = map_option (\<lambda>e'. Directory ((n, e') # rest)) (remove_at rel e)"
  by (auto simp: remove_at_def delete_at_into split: option.splits entry.splits)

lemma rmdir_at_into:
  "rel \<noteq> [] \<Longrightarrow> n \<notin> fst ` set rest \<Longrightarrow>
   rmdir_at (n # rel) (Directory ((n, e) # rest))
     = map_option (\<lambda>e'. Directory ((n, e') # rest)) (rmdir_at rel e)"
  by (auto simp: rmdir_at_def delete_at_into split: option.splits entry.splits list.splits)

lemma remove_at_past:
  "m \<noteq> n \<Longrightarrow>
   remove_at (m # ms) (Directory ((n, e) # rest))
     = map_option (dir_cons (n, e)) (remove_at (m # ms) (Directory rest))"
  by (auto simp: remove_at_def delete_at_past split: option.splits entry.splits)

lemma rmdir_at_past:
  "m \<noteq> n \<Longrightarrow>
   rmdir_at (m # ms) (Directory ((n, e) # rest))
     = map_option (dir_cons (n, e)) (rmdir_at (m # ms) (Directory rest))"
  by (auto simp: rmdir_at_def delete_at_past split: option.splits entry.splits list.splits)

lemma remove_at_is_directory:
  assumes "remove_at rel (Directory ks) = Some t'"
  shows "\<exists>ks'. t' = Directory ks'"
proof -
  from assms have "t' = delete_at rel (Directory ks)"
    by (auto simp: remove_at_def split: option.splits entry.splits if_splits)
  then show ?thesis
    using delete_at_is_directory [of rel ks] by simp
qed

lemma rmdir_at_is_directory:
  assumes "rmdir_at rel (Directory ks) = Some t'"
  shows "\<exists>ks'. t' = Directory ks'"
proof -
  from assms have "t' = delete_at rel (Directory ks)"
    by (auto simp: rmdir_at_def split: option.splits entry.splits if_splits list.splits)
  then show ?thesis
    using delete_at_is_directory [of rel ks] by simp
qed

lemma run_all_into:
  assumes into: "\<And>rel t. rel \<noteq> [] \<Longrightarrow>
                   step (n # rel) (Directory ((n, t) # rest))
                     = map_option (\<lambda>e'. Directory ((n, e') # rest)) (step rel t)"
    and "\<forall>rel \<in> set rels. rel \<noteq> []"
  shows "run_all step (map ((#) n) rels) (Directory ((n, e) # rest))
           = map_option (\<lambda>e'. Directory ((n, e') # rest)) (run_all step rels e)"
  using assms(2)
proof (induction rels arbitrary: e)
  case Nil
  show ?case by simp
next
  case (Cons rel rels)
  then have "rel \<noteq> []" by simp
  from into [OF this] Cons show ?case
    by (cases "step rel e") simp_all
qed

lemma run_all_past:
  assumes past: "\<And>m ms ks. m \<noteq> n \<Longrightarrow>
                   step (m # ms) (Directory ((n, e) # ks))
                     = map_option (dir_cons (n, e)) (step (m # ms) (Directory ks))"
    and keeps: "\<And>rel ks t'. step rel (Directory ks) = Some t' \<Longrightarrow> \<exists>ks'. t' = Directory ks'"
    and "\<forall>rel \<in> set rels. rel \<noteq> [] \<and> hd rel \<noteq> n"
  shows "run_all step rels (Directory ((n, e) # rest))
           = map_option (dir_cons (n, e)) (run_all step rels (Directory rest))"
  using assms(3)
proof (induction rels arbitrary: rest)
  case Nil
  show ?case by simp
next
  case (Cons rel rels)
  then obtain m ms where rel: "rel = m # ms" and m: "m \<noteq> n"
    by (cases rel) auto
  show ?case
  proof (cases "step rel (Directory rest)")
    case None
    then show ?thesis using past [OF m, of ms rest] by (simp add: rel)
  next
    case (Some t')
    then obtain ks' where t': "t' = Directory ks'"
      using keeps by blast
    from Cons have "\<forall>rel \<in> set rels. rel \<noteq> [] \<and> hd rel \<noteq> n" by simp
    from Cons.IH [OF this, of ks'] show ?thesis
      using past [OF m, of ms rest] Some by (simp add: rel t')
  qed
qed

lemma cfiles_heads: "rel \<in> set (cfiles kids) \<Longrightarrow> rel \<noteq> [] \<and> hd rel \<in> fst ` set kids"
  by (induction kids rule: cfiles.induct) auto

lemma cdirs_heads: "rel \<in> set (cdirs kids) \<Longrightarrow> rel \<noteq> [] \<and> hd rel \<in> fst ` set kids"
  by (induction kids rule: cdirs.induct) auto

lemma remove_files:
  "wf_listing kids \<Longrightarrow>
   run_all remove_at (cfiles kids) (Directory kids) = Some (Directory (prune kids))"
proof (induction kids rule: cfiles.induct)
  case 1
  show ?case by simp
next
  case (2 name kids rest)
  then have fresh: "name \<notin> fst ` set rest" and wk: "wf_listing kids" and wr: "wf_listing rest"
    by simp_all
  have inner: "run_all remove_at (map ((#) name) (cfiles kids)) (Directory ((name, Directory kids) # rest))
        = Some (Directory ((name, Directory (prune kids)) # rest))"
    using run_all_into [of remove_at name rest "cfiles kids" "Directory kids"]
          remove_at_into [OF _ fresh] cfiles_heads [of _ kids] "2.IH"(1) [OF wk]
    by auto
  have "\<forall>rel \<in> set (cfiles rest). rel \<noteq> [] \<and> hd rel \<noteq> name"
    using cfiles_heads [of _ rest] fresh by auto
  then have later: "run_all remove_at (cfiles rest) (Directory ((name, Directory (prune kids)) # rest))
        = Some (Directory ((name, Directory (prune kids)) # prune rest))"
    using run_all_past [of name remove_at "Directory (prune kids)" "cfiles rest" rest]
          remove_at_past remove_at_is_directory "2.IH"(2) [OF wr]
    by auto
  show ?case
    by (simp add: run_all_append inner later)
next
  case (3 name rest)
  then have fresh: "name \<notin> fst ` set rest" and wr: "wf_listing rest"
    by simp_all
  have "remove_at [name] (Directory ((name, RegFile) # rest)) = Some (Directory rest)"
    using fresh by (simp add: remove_at_def filter_keep_others)
  then show ?case using "3.IH" [OF wr] by simp
next
  case (4 name rest)
  then have fresh: "name \<notin> fst ` set rest" and wr: "wf_listing rest"
    by simp_all
  have "remove_at [name] (Directory ((name, Special) # rest)) = Some (Directory rest)"
    using fresh by (simp add: remove_at_def filter_keep_others)
  then show ?case using "4.IH" [OF wr] by simp
qed

lemma prune_names: "fst ` set (prune kids) \<subseteq> fst ` set kids"
  by (induction kids rule: prune.induct) auto

lemma remove_directories:
  "wf_listing kids \<Longrightarrow>
   run_all rmdir_at (rev (cdirs kids)) (Directory (prune kids)) = Some (Directory [])"
proof (induction kids rule: cdirs.induct)
  case 1
  show ?case by simp
next
  case (2 name kids rest)
  then have fresh: "name \<notin> fst ` set rest" and wk: "wf_listing kids" and wr: "wf_listing rest"
    by simp_all
  have "\<forall>rel \<in> set (rev (cdirs rest)). rel \<noteq> [] \<and> hd rel \<noteq> name"
    using cdirs_heads [of _ rest] fresh by auto
  then have later: "run_all rmdir_at (rev (cdirs rest))
          (Directory ((name, Directory (prune kids)) # prune rest))
        = Some (Directory [(name, Directory (prune kids))])"
    using run_all_past [of name rmdir_at "Directory (prune kids)" "rev (cdirs rest)" "prune rest"]
          rmdir_at_past rmdir_at_is_directory "2.IH"(2) [OF wr]
    by auto
  have inner: "run_all rmdir_at (map ((#) name) (rev (cdirs kids)))
          (Directory [(name, Directory (prune kids))])
        = Some (Directory [(name, Directory [])])"
    using run_all_into [of rmdir_at name "[]" "rev (cdirs kids)" "Directory (prune kids)"]
          rmdir_at_into [of _ name "[]"] cdirs_heads [of _ kids] "2.IH"(1) [OF wk]
    by auto
  have last: "rmdir_at [name] (Directory [(name, Directory [])]) = Some (Directory [])"
    by (simp add: rmdir_at_def)
  show ?case
    by (simp add: run_all_append later inner last rev_map)
next
  case (3 name rest)
  then show ?case by simp
next
  case (4 name rest)
  then show ?case by simp
qed


subsection \<open>Removal through the facade\<close>

lemma subfiles_components:
  "wf_listing kids \<Longrightarrow>
   map components (subfiles q kids) = map ((@) (components q)) (cfiles kids)"
proof (induction q kids rule: subfiles.induct)
  case (1 remotepath)
  show ?case by simp
next
  case (2 remotepath name e rest)
  show ?case
  proof (cases e)
    case (Directory ks)
    with 2 show ?thesis by (simp add: components_join)
  next
    case RegFile
    with 2 show ?thesis by (simp add: components_join)
  next
    case Special
    with 2 show ?thesis by (simp add: components_join)
  qed
qed

lemma subdirs_components:
  "wf_listing kids \<Longrightarrow>
   map components (map fst (subdirs q kids)) = map ((@) (components q)) (cdirs kids)"
proof (induction q kids rule: subdirs.induct)
  case (1 remotepath)
  show ?case by simp
next
  case (2 remotepath name e rest)
  show ?case
  proof (cases e)
    case (Directory ks)
    with 2 show ?thesis by (simp add: components_join)
  next
    case RegFile
    with 2 show ?thesis by simp
  next
    case Special
    with 2 show ?thesis by simp
  qed
qed

lemma lookup_append:
  "lookup r (a @ b) = (case lookup r a of None \<Rightarrow> None | Some e \<Rightarrow> lookup e b)"
proof (induction a arbitrary: r)
  case Nil
  show ?case by simp
next
  case (Cons n ns)
  show ?case by (cases r) (auto simp: Cons split: option.splits)
qed

lemma map_of_map_entry:
  "map_of (map (\<lambda>(m, e). if m = n then (m, f e) else (m, e)) kids) n = map_option f (map_of kids n)"
  by (induction kids) auto

lemma lookup_delete_at_above:
  "rel \<noteq> [] \<Longrightarrow> lookup r base = Some t \<Longrightarrow>
   lookup (delete_at (base @ rel) r) base = Some (delete_at rel t)"
proof (induction base arbitrary: r)
  case Nil
  then show ?case by simp
next
  case (Cons n ns)
  from Cons.prems(2) obtain kids e where r: "r = Directory kids"
    and e: "map_of kids n = Some e" and t: "lookup e ns = Some t"
    by (cases r) (auto split: option.splits)
  obtain x xs where split: "ns @ rel = x # xs"
    using Cons.prems(1) by (cases "ns @ rel") auto
  have d: "delete_at (n # ns @ rel) r
        = Directory (map (\<lambda>(m, e). if m = n then (m, delete_at (x # xs) e) else (m, e)) kids)"
    by (simp add: r split)
  have "lookup (delete_at (x # xs) e) ns = Some (delete_at rel t)"
    using Cons.IH [OF Cons.prems(1) t] by (simp add: split)
  then show ?case
    using e by (simp add: d map_of_map_entry)
qed

lemma io_bind_ok: "fst (m w) = Inr x \<Longrightarrow> io_bind m f w = f x (snd (m w))"
  by (cases "m w") (simp add: io_bind_def)

lemma accepts_removals_fault: "fault w' = fault w \<Longrightarrow> accepts_removals w' = accepts_removals w"
  by (simp add: accepts_removals_def)

lemma conn_remove_ok:
  assumes "accepts_removals w" and "lookup (remote_fs w) base = Some t"
    and "components f = base @ rel" and "remove_at rel t = Some t'"
  shows "fst (conn_remove f w) = Inr ()
       \<and> lookup (remote_fs (snd (conn_remove f w))) base = Some t'
       \<and> fault (snd (conn_remove f w)) = fault w"
proof -
  from assms(4) have rel: "rel \<noteq> []" and t': "t' = delete_at rel t"
    and kind: "lookup t rel = Some RegFile \<or> lookup t rel = Some Special"
    by (auto simp: remove_at_def split: option.splits entry.splits if_splits)
  have here: "lookup (remote_fs w) (components f) = lookup t rel"
    by (simp add: assms(2,3) lookup_append)
  have nofault: "fault w (Remove f) (remote_fs w) (local_fs w) = None"
    using assms(1) by (simp add: accepts_removals_def)
  have after: "lookup (delete_at (base @ rel) (remote_fs w)) base = Some t'"
    using lookup_delete_at_above [OF rel assms(2)] by (simp add: t')
  show ?thesis
    using kind here nofault after rel assms(3)
    by (auto simp: conn_remove_def perform_def record_event_def)
qed

lemma conn_rmdir_ok:
  assumes "accepts_removals w" and "lookup (remote_fs w) base = Some t"
    and "components d = base @ rel" and "rmdir_at rel t = Some t'"
  shows "fst (conn_rmdir d w) = Inr ()
       \<and> lookup (remote_fs (snd (conn_rmdir d w))) base = Some t'
       \<and> fault (snd (conn_rmdir d w)) = fault w"
proof -
  from assms(4) have rel: "rel \<noteq> []" and t': "t' = delete_at rel t"
    and kind: "lookup t rel = Some (Directory [])"
    by (auto simp: rmdir_at_def split: option.splits entry.splits if_splits list.splits)
  have here: "lookup (remote_fs w) (components d) = lookup t rel"
    by (simp add: assms(2,3) lookup_append)
  have nofault: "fault w (Rmdir d) (remote_fs w) (local_fs w) = None"
    using assms(1) by (simp add: accepts_removals_def)
  have after: "lookup (delete_at (base @ rel) (remote_fs w)) base = Some t'"
    using lookup_delete_at_above [OF rel assms(2)] by (simp add: t')
  show ?thesis
    using kind here nofault after rel assms(3)
    by (auto simp: conn_rmdir_def perform_def record_event_def)
qed

lemma conn_walktree_ok:
  assumes "accepts_removals w" and "lookup (remote_fs w) (components p) = Some (Directory kids)"
  shows "fst (conn_walktree p w) = Inr (walktree p kids)
       \<and> remote_fs (snd (conn_walktree p w)) = remote_fs w
       \<and> fault (snd (conn_walktree p w)) = fault w"
proof -
  have "fault w (Walktree p) (remote_fs w) (local_fs w) = None"
    using assms(1) by (simp add: accepts_removals_def)
  then show ?thesis
    using assms(2) by (simp add: conn_walktree_def perform_def record_event_def)
qed

lemma run_callbacks_ok:
  assumes "accepts_removals w" and "lookup (remote_fs w) base = Some t"
    and "map components (visit_removes vs) = map ((@) base) rels"
    and "run_all remove_at rels t = Some t'"
  shows "fst (run_callbacks vs dirs w) = Inr (dirs @ visit_dirs vs)
       \<and> lookup (remote_fs (snd (run_callbacks vs dirs w))) base = Some t'
       \<and> fault (snd (run_callbacks vs dirs w)) = fault w"
  using assms
proof (induction vs dirs arbitrary: w t rels rule: run_callbacks.induct)
  case (1 dirs)
  then show ?case by (simp add: io_return_def)
next
  case (2 p vs dirs)
  from "2.prems"(3) obtain rel rels' where rels: "rels = rel # rels'"
    and c: "components p = base @ rel"
    and rest: "map components (visit_removes vs) = map ((@) base) rels'"
    by (cases rels) auto
  from "2.prems"(4) obtain t1 where s1: "remove_at rel t = Some t1"
    and s2: "run_all remove_at rels' t1 = Some t'"
    by (auto simp: rels split: option.splits)
  let ?w1 = "snd (conn_remove p w)"
  from conn_remove_ok [OF "2.prems"(1,2) c s1]
  have ok: "fst (conn_remove p w) = Inr ()" and l1: "lookup (remote_fs ?w1) base = Some t1"
    and f1: "fault ?w1 = fault w"
    by simp_all
  have a1: "accepts_removals ?w1"
    using "2.prems"(1) accepts_removals_fault [OF f1] by simp
  from "2.IH" [OF a1 l1 rest s2] f1 show ?case
    by (simp add: io_bind_ok [of "conn_remove p" w "()", OF ok])
next
  case (3 p vs dirs)
  from "3.prems"(3) obtain rel rels' where rels: "rels = rel # rels'"
    and c: "components p = base @ rel"
    and rest: "map components (visit_removes vs) = map ((@) base) rels'"
    by (cases rels) auto
  from "3.prems"(4) obtain t1 where s1: "remove_at rel t = Some t1"
    and s2: "run_all remove_at rels' t1 = Some t'"
    by (auto simp: rels split: option.splits)
  let ?w1 = "snd (conn_remove p w)"
  from conn_remove_ok [OF "3.prems"(1,2) c s1]
  have ok: "fst (conn_remove p w) = Inr ()" and l1: "lookup (remote_fs ?w1) base = Some t1"
    and f1: "fault ?w1 = fault w"
    by simp_all
  have a1: "accepts_removals ?w1"
    using "3.prems"(1) accepts_removals_fault [OF f1] by simp
  from "3.IH" [OF a1 l1 rest s2] f1 show ?case
    by (simp add: io_bind_ok [of "conn_remove p" w "()", OF ok])
next
  case (4 p vs dirs)
  from "4.IH" [OF "4.prems"(1,2) _ "4.prems"(4)] "4.prems"(3) show ?case
    by simp
qed

lemma rmdir_each_ok:
  assumes "accepts_removals w" and "lookup (remote_fs w) base = Some t"
    and "map components ds = map ((@) base) rels"
    and "run_all rmdir_at rels t = Some t'"
  shows "fst (rmdir_each ds w) = Inr ()
       \<and> lookup (remote_fs (snd (rmdir_each ds w))) base = Some t'
       \<and> fault (snd (rmdir_each ds w)) = fault w"
  using assms
proof (induction ds arbitrary: w t rels)
  case Nil
  then show ?case by (simp add: io_return_def)
next
  case (Cons d ds)
  from Cons.prems(3) obtain rel rels' where rels: "rels = rel # rels'"
    and c: "components d = base @ rel"
    and rest: "map components ds = map ((@) base) rels'"
    by (cases rels) auto
  from Cons.prems(4) obtain t1 where s1: "rmdir_at rel t = Some t1"
    and s2: "run_all rmdir_at rels' t1 = Some t'"
    by (auto simp: rels split: option.splits)
  let ?w1 = "snd (conn_rmdir d w)"
  from conn_rmdir_ok [OF Cons.prems(1,2) c s1]
  have ok: "fst (conn_rmdir d w) = Inr ()" and l1: "lookup (remote_fs ?w1) base = Some t1"
    and f1: "fault ?w1 = fault w"
    by simp_all
  have a1: "accepts_removals ?w1"
    using Cons.prems(1) accepts_removals_fault [OF f1] by simp
  from Cons.IH [OF a1 l1 rest s2] f1 show ?case
    by (simp add: io_bind_ok [of "conn_rmdir d" w "()", OF ok])
qed

lemma rmdir_body_ok:
  assumes acc: "accepts_removals w"
    and dir: "lookup (remote_fs w) (components p) = Some (Directory kids)"
    and nonroot: "components p \<noteq> []"
    and wf: "wf_listing kids"
  shows "fst (rmdir_body [p] w) = Inr ()"
proof -
  let ?cp = "components p"
  let ?w1 = "snd (conn_isdir p w)"
  have i: "fst (conn_isdir p w) = Inr True" "remote_fs ?w1 = remote_fs w" "fault ?w1 = fault w"
    using dir by (simp_all add: conn_isdir_def is_dir_at_def record_event_def)
  have a1: "accepts_removals ?w1"
    using acc accepts_removals_fault [OF i(3)] by simp
  let ?w2 = "snd (conn_walktree p ?w1)"
  from conn_walktree_ok [OF a1, of p kids] dir i(2)
  have wk: "fst (conn_walktree p ?w1) = Inr (walktree p kids)"
    "remote_fs ?w2 = remote_fs w" "fault ?w2 = fault w"
    using i(3) by simp_all
  have a2: "accepts_removals ?w2"
    using acc accepts_removals_fault [OF wk(3)] by simp
  let ?vs = "walktree p kids"
  let ?w3 = "snd (run_callbacks ?vs [] ?w2)"
  have l2: "lookup (remote_fs ?w2) ?cp = Some (Directory kids)"
    using dir wk(2) by simp
  have files: "map components (visit_removes ?vs) = map ((@) ?cp) (cfiles kids)"
    using subfiles_components [OF wf] by (simp add: visit_removes_walktree)
  from run_callbacks_ok [OF a2 l2 files remove_files [OF wf], of "[]"]
  have rc: "fst (run_callbacks ?vs [] ?w2) = Inr (visit_dirs ?vs)"
    "lookup (remote_fs ?w3) ?cp = Some (Directory (prune kids))" "fault ?w3 = fault ?w2"
    by simp_all
  have a3: "accepts_removals ?w3"
    using a2 accepts_removals_fault [OF rc(3)] by simp
  let ?ds = "rev (visit_dirs ?vs)"
  let ?w4 = "snd (rmdir_each ?ds ?w3)"
  have "map components (visit_dirs ?vs) = map ((@) ?cp) (cdirs kids)"
    using subdirs_components [OF wf, of p] by (simp add: visit_dirs_walktree)
  then have "rev (map components (visit_dirs ?vs)) = rev (map ((@) ?cp) (cdirs kids))"
    by simp
  then have dirs: "map components ?ds = map ((@) ?cp) (rev (cdirs kids))"
    by (simp only: rev_map)
  from rmdir_each_ok [OF a3 rc(2) dirs remove_directories [OF wf]]
  have re: "fst (rmdir_each ?ds ?w3) = Inr ()"
    "lookup (remote_fs ?w4) ?cp = Some (Directory [])" "fault ?w4 = fault ?w3"
    by simp_all
  have a4: "accepts_removals ?w4"
    using a3 accepts_removals_fault [OF re(3)] by simp
  have "rmdir_at ?cp (remote_fs ?w4) = Some (delete_at ?cp (remote_fs ?w4))"
    using re(2) nonroot by (simp add: rmdir_at_def)
  from conn_rmdir_ok [OF a4, of "[]" "remote_fs ?w4" p ?cp, OF _ _ this]
  have fin: "fst (conn_rmdir p ?w4) = Inr ()"
    by simp
  show ?thesis
    by (simp add: rmdir_body_def io_bind_ok [of "conn_isdir p" w True, OF i(1)]
        io_bind_ok [of "conn_walktree p" ?w1 ?vs, OF wk(1)]
        io_bind_ok [of "run_callbacks ?vs []" ?w2 "visit_dirs ?vs", OF rc(1)]
        io_bind_ok [of "rmdir_each ?ds" ?w3 "()", OF re(1)] fin)
qed

lemma rmdir_succeeds:
  assumes "history_writable w" and "accepts_removals w"
    and "lookup (remote_fs w) (components p) = Some (Directory kids)"
    and "components p \<noteq> []" and "wf_listing kids"
  shows "fst (rmdir [p] w) = Inr ()"
proof -
  have "accepts_removals (logged ''rmdir'' [p] w)"
    using assms(2) by (simp add: accepts_removals_def)
  from rmdir_body_ok [OF this _ assms(4,5)] assms(1,3) show ?thesis
    by (simp add: rmdir_def log_history_run)
qed

section \<open>Recursive removal: the statements\<close>

lemma rmdir_example_run:
  "fst (rmdir [''root''] example_world) = Inr ()"
  by (simp add: example_world_def rmdir_def log_history_def rmdir_body_def io_bind_def
      io_raise_def io_return_def append_file_def conn_isdir_def conn_walktree_def conn_rmdir_def
      conn_remove_def perform_def record_event_def components_def posix_join_def HISTORY_FILE_def
      history_line_def is_dir_at_def)

lemma example_root:
  "lookup (remote_fs example_world) (components ''root'')
   = Some (Directory [(''a.txt'', RegFile), (''sub'', Directory [(''b.txt'', RegFile)])])"
  by (simp add: example_world_def components_def)

lemma nested_root:
  "lookup (remote_fs nested_world) (components ''root'')
   = Some (Directory [(''a.txt'', RegFile),
                      (''sub'', Directory [(''b.txt'', RegFile),
                                           (''deep'', Directory [(''c.txt'', Special)])]),
                      (''top'', Directory [])])"
  by (simp add: nested_world_def example_world_def components_def)

lemma example_calls:
  "rmdir_calls ''root'' [(''a.txt'', RegFile), (''sub'', Directory [(''b.txt'', RegFile)])]
   = [Isdir ''root'', Walktree ''root'', Remove ''root/a.txt'', Remove ''root/sub/b.txt'',
      Rmdir ''root/sub'', Rmdir ''root'']"
  by (simp add: rmdir_calls_def posix_join_def)

lemma nested_calls:
  "rmdir_calls ''root'' [(''a.txt'', RegFile),
                      (''sub'', Directory [(''b.txt'', RegFile),
                                           (''deep'', Directory [(''c.txt'', Special)])]),
                      (''top'', Directory [])]
   = [Isdir ''root'', Walktree ''root'',
      Remove ''root/a.txt'', Remove ''root/sub/b.txt'', Remove ''root/sub/deep/c.txt'',
      Rmdir ''root/top'', Rmdir ''root/sub/deep'', Rmdir ''root/sub'', Rmdir ''root'']"
  by (simp add: rmdir_calls_def posix_join_def)

lemma example_subdirs:
  "subdirs ''root'' [(''a.txt'', RegFile), (''sub'', Directory [(''b.txt'', RegFile)])]
   = [(''root/sub'', [(''b.txt'', RegFile)])]"
  by (simp add: posix_join_def)

text \<open>
  C2. Let the argument \<open>p\<close> name a directory with listing \<open>kids\<close>. The calls \<^verbatim>\<open>rmdir\<close>
  makes are an initial segment of this plan, and the whole plan, each call returning,
  when \<^verbatim>\<open>rmdir\<close> succeeds: the directory check; the walk, which removes every entry of
  the tree that is not a directory, in walk order; then \<^verbatim>\<open>rmdir\<close> on every directory of
  the tree in the reverse of the order the walk recorded them; then \<^verbatim>\<open>rmdir\<close> on \<open>p\<close>
  itself, last. And \<^verbatim>\<open>rmdir\<close> does succeed, making all these calls and leaving nothing
  at \<open>p\<close>, whenever the history file can be written, the remote side rejects none of
  the calls, \<open>p\<close> is not the working directory itself and the listing is one a directory
  can hold. For every directory \<open>d\<close> of the tree, the removal of every file and of every
  directory below \<open>d\<close> comes before the removal of \<open>d\<close>. The witness runs the tree
  \<^verbatim>\<open>root/{a.txt, sub/{b.txt}}\<close> (\<^verbatim>\<open>a.txt\<close>, \<^verbatim>\<open>sub/b.txt\<close>, \<^verbatim>\<open>sub\<close>, \<^verbatim>\<open>root\<close>) and a
  tree with three directories below the root.
\<close>

theorem rmdir_order:
  assumes "lookup (remote_fs w) (components p) = Some (Directory kids)"
  shows "prefix (map call_of (new_events w (snd (rmdir [p] w)))) (rmdir_calls p kids)
       \<and> (fst (rmdir [p] w) = Inr () \<longrightarrow>
            new_events w (snd (rmdir [p] w)) = map Returned (rmdir_calls p kids))
       \<and> (history_writable w \<and> accepts_removals w \<and> components p \<noteq> [] \<and> wf_listing kids \<longrightarrow>
            fst (rmdir [p] w) = Inr ()
            \<and> new_events w (snd (rmdir [p] w)) = map Returned (rmdir_calls p kids)
            \<and> lookup (remote_fs (snd (rmdir [p] w))) (components p) = None)
       \<and> rmdir_calls p kids
           = [Isdir p, Walktree p] @ map Remove (subfiles p kids)
             @ map Rmdir (rev (map fst (subdirs p kids))) @ [Rmdir p]
       \<and> (\<forall>(d, ks) \<in> set (subdirs p kids).
            \<exists>before after. rmdir_calls p kids = before @ Rmdir d # after
              \<and> set (map Remove (subfiles d ks)) \<union> set (map Rmdir (map fst (subdirs d ks)))
                  \<subseteq> set before)
       \<and> last (rmdir_calls p kids) = Rmdir p"
proof -
  have a: "prefix (map call_of (new_events w (snd (rmdir [p] w)))) (rmdir_calls p kids)"
    and b: "fst (rmdir [p] w) = Inr () \<longrightarrow>
            new_events w (snd (rmdir [p] w)) = map Returned (rmdir_calls p kids)
            \<and> lookup (remote_fs (snd (rmdir [p] w))) (components p) = None"
    using rmdir_run [OF assms] by simp_all
  have s: "fst (rmdir [p] w) = Inr ()"
    if "history_writable w \<and> accepts_removals w \<and> components p \<noteq> [] \<and> wf_listing kids"
    using that rmdir_succeeds [OF _ _ assms] by blast
  have c: "rmdir_calls p kids
           = [Isdir p, Walktree p] @ map Remove (subfiles p kids)
             @ map Rmdir (rev (map fst (subdirs p kids))) @ [Rmdir p]"
    by (simp add: rmdir_calls_def visit_removes_walktree visit_dirs_walktree)
  have d: "\<forall>(d, ks) \<in> set (subdirs p kids).
            \<exists>before after. rmdir_calls p kids = before @ Rmdir d # after
              \<and> set (map Remove (subfiles d ks)) \<union> set (map Rmdir (map fst (subdirs d ks)))
                  \<subseteq> set before"
    using rmdir_calls_descendants_first by blast
  have e: "last (rmdir_calls p kids) = Rmdir p"
    by (simp add: rmdir_calls_def)
  from a b s c d e show ?thesis by blast
qed

theorem rmdir_order_witness:
  "lookup (remote_fs example_world) (components ''root'')
     = Some (Directory [(''a.txt'', RegFile), (''sub'', Directory [(''b.txt'', RegFile)])])
   \<and> history_writable example_world \<and> accepts_removals example_world
   \<and> components ''root'' \<noteq> []
   \<and> wf_listing [(''a.txt'', RegFile), (''sub'', Directory [(''b.txt'', RegFile)])]
   \<and> fst (rmdir [''root''] example_world) = Inr ()
   \<and> new_events example_world (snd (rmdir [''root''] example_world))
       = [Returned (Isdir ''root''), Returned (Walktree ''root''),
          Returned (Remove ''root/a.txt''), Returned (Remove ''root/sub/b.txt''),
          Returned (Rmdir ''root/sub''), Returned (Rmdir ''root'')]
   \<and> (''root/sub'', [(''b.txt'', RegFile)])
       \<in> set (subdirs ''root'' [(''a.txt'', RegFile), (''sub'', Directory [(''b.txt'', RegFile)])])
   \<and> (\<exists>before after.
         [Isdir ''root'', Walktree ''root'', Remove ''root/a.txt'', Remove ''root/sub/b.txt'',
          Rmdir ''root/sub'', Rmdir ''root''] = before @ Rmdir ''root/sub'' # after
         \<and> Remove ''root/sub/b.txt'' \<in> set before)
   \<and> history_writable nested_world \<and> accepts_removals nested_world
   \<and> wf_listing [(''a.txt'', RegFile),
                  (''sub'', Directory [(''b.txt'', RegFile),
                                       (''deep'', Directory [(''c.txt'', Special)])]),
                  (''top'', Directory [])]
   \<and> fst (rmdir [''root''] nested_world) = Inr ()
   \<and> new_events nested_world (snd (rmdir [''root''] nested_world))
       = [Returned (Isdir ''root''), Returned (Walktree ''root''),
          Returned (Remove ''root/a.txt''), Returned (Remove ''root/sub/b.txt''),
          Returned (Remove ''root/sub/deep/c.txt''),
          Returned (Rmdir ''root/top''), Returned (Rmdir ''root/sub/deep''),
          Returned (Rmdir ''root/sub''), Returned (Rmdir ''root'')]
   \<and> lookup (remote_fs (snd (rmdir [''root''] nested_world))) (components ''root'') = None"
proof -
  have env: "history_writable example_world" "accepts_removals example_world"
    "history_writable nested_world" "accepts_removals nested_world"
    by (simp_all add: history_writable_def accepts_removals_def nested_world_def example_world_def)
  have path: "components ''root'' \<noteq> []"
    by (simp add: components_def)
  have wf: "wf_listing [(''a.txt'', RegFile), (''sub'', Directory [(''b.txt'', RegFile)])]"
    "wf_listing [(''a.txt'', RegFile),
                  (''sub'', Directory [(''b.txt'', RegFile),
                                       (''deep'', Directory [(''c.txt'', Special)])]),
                  (''top'', Directory [])]"
    by (simp_all add: good_name_def)
  note small = rmdir_order [OF example_root]
  note large = rmdir_order [OF nested_root]
  from small env path wf have run1: "fst (rmdir [''root''] example_world) = Inr ()
      \<and> new_events example_world (snd (rmdir [''root''] example_world))
       = [Returned (Isdir ''root''), Returned (Walktree ''root''),
          Returned (Remove ''root/a.txt''), Returned (Remove ''root/sub/b.txt''),
          Returned (Rmdir ''root/sub''), Returned (Rmdir ''root'')]"
    by (simp add: example_calls)
  from large env path wf have run2: "fst (rmdir [''root''] nested_world) = Inr ()
      \<and> new_events nested_world (snd (rmdir [''root''] nested_world))
       = [Returned (Isdir ''root''), Returned (Walktree ''root''),
          Returned (Remove ''root/a.txt''), Returned (Remove ''root/sub/b.txt''),
          Returned (Remove ''root/sub/deep/c.txt''),
          Returned (Rmdir ''root/top''), Returned (Rmdir ''root/sub/deep''),
          Returned (Rmdir ''root/sub''), Returned (Rmdir ''root'')]
      \<and> lookup (remote_fs (snd (rmdir [''root''] nested_world))) (components ''root'') = None"
    by (simp add: nested_calls)
  from small have "\<forall>(d, ks) \<in> set (subdirs ''root'' [(''a.txt'', RegFile), (''sub'', Directory [(''b.txt'', RegFile)])]).
            \<exists>before after. rmdir_calls ''root'' [(''a.txt'', RegFile), (''sub'', Directory [(''b.txt'', RegFile)])] = before @ Rmdir d # after
              \<and> set (map Remove (subfiles d ks)) \<union> set (map Rmdir (map fst (subdirs d ks)))
                  \<subseteq> set before"
    by blast
  then have desc: "\<exists>before after.
         [Isdir ''root'', Walktree ''root'', Remove ''root/a.txt'', Remove ''root/sub/b.txt'',
          Rmdir ''root/sub'', Rmdir ''root''] = before @ Rmdir ''root/sub'' # after
         \<and> Remove ''root/sub/b.txt'' \<in> set before"
    by (simp add: example_subdirs example_calls posix_join_def)
  show ?thesis
    using example_root env path wf run1 run2 desc by (simp add: posix_join_def)
qed

text \<open>
  C5. While the history file can be written: when the one argument of \<^verbatim>\<open>rmdir\<close> does not
  name a directory (it is absent, or something else), \<^verbatim>\<open>rmdir\<close> raises the \<^verbatim>\<open>TypeError\<close>
  \<^verbatim>\<open>Error: '<path>' is not a directory\<close>, its only call is the directory check, and the
  remote tree is unchanged. So after a \<^verbatim>\<open>rmdir\<close> that succeeded, a second \<^verbatim>\<open>rmdir\<close> on
  the same path fails in this way.
\<close>

theorem rmdir_not_a_directory:
  assumes "history_writable w"
  shows "(\<not> is_dir_at (remote_fs w) p \<longrightarrow>
            fst (rmdir [p] w) = Inl (TypeError (''Error: '' @ [CHR 0x27] @ p @ [CHR 0x27]
                                                @ '' is not a directory''))
            \<and> new_events w (snd (rmdir [p] w)) = [Returned (Isdir p)]
            \<and> remote_fs (snd (rmdir [p] w)) = remote_fs w)
       \<and> (fst (rmdir [p] w) = Inr () \<longrightarrow>
            fst (rmdir [p] (snd (rmdir [p] w)))
              = Inl (TypeError (''Error: '' @ [CHR 0x27] @ p @ [CHR 0x27]
                                @ '' is not a directory''))
            \<and> new_events (snd (rmdir [p] w)) (snd (rmdir [p] (snd (rmdir [p] w))))
                = [Returned (Isdir p)]
            \<and> remote_fs (snd (rmdir [p] (snd (rmdir [p] w)))) = remote_fs (snd (rmdir [p] w)))"
proof -
  have fails: "fst (rmdir [p] v) = Inl (TypeError (''Error: '' @ [CHR 0x27] @ p @ [CHR 0x27]
                                                @ '' is not a directory''))
            \<and> new_events v (snd (rmdir [p] v)) = [Returned (Isdir p)]
            \<and> remote_fs (snd (rmdir [p] v)) = remote_fs v"
    if "history_writable v" and "\<not> is_dir_at (remote_fs v) p" for v
    using that
    by (simp add: rmdir_def log_history_run rmdir_body_def io_bind_def io_raise_def
        conn_isdir_def record_event_def new_events_def)
  have again: "history_writable (snd (rmdir [p] w)) \<and> \<not> is_dir_at (remote_fs (snd (rmdir [p] w))) p"
    if ok: "fst (rmdir [p] w) = Inr ()"
  proof -
    have "is_dir_at (remote_fs w) p"
      using fails [OF assms] ok by auto
    then obtain kids where "lookup (remote_fs w) (components p) = Some (Directory kids)"
      by (auto simp: is_dir_at_def split: option.splits entry.splits)
    from rmdir_run [OF this] ok show ?thesis
      by (simp add: is_dir_at_def)
  qed
  show ?thesis
    using fails [OF assms] fails [of "snd (rmdir [p] w)"] again by blast
qed

theorem rmdir_not_a_directory_witness:
  "history_writable example_world
   \<and> \<not> is_dir_at (remote_fs example_world) ''nowhere''
   \<and> fst (rmdir [''nowhere''] example_world)
       = Inl (TypeError ''Error: 'nowhere' is not a directory'')
   \<and> new_events example_world (snd (rmdir [''nowhere''] example_world))
       = [Returned (Isdir ''nowhere'')]
   \<and> \<not> is_dir_at (remote_fs example_world) ''root/a.txt''
   \<and> fst (rmdir [''root/a.txt''] example_world)
       = Inl (TypeError ''Error: 'root/a.txt' is not a directory'')
   \<and> fst (rmdir [''root''] example_world) = Inr ()
   \<and> fst (rmdir [''root''] (snd (rmdir [''root''] example_world)))
       = Inl (TypeError ''Error: 'root' is not a directory'')"
proof -
  have writable: "history_writable example_world"
    by (simp add: history_writable_def example_world_def)
  have nodir: "\<not> is_dir_at (remote_fs example_world) ''nowhere''"
    "\<not> is_dir_at (remote_fs example_world) ''root/a.txt''"
    by (simp_all add: is_dir_at_def example_world_def components_def)
  show ?thesis
    using rmdir_not_a_directory [OF writable, of "''nowhere''"]
          rmdir_not_a_directory [OF writable, of "''root/a.txt''"]
          rmdir_not_a_directory [OF writable, of "''root''"]
          writable nodir rmdir_example_run
    by simp
qed

end
